theory Spec2Isabelle
  imports Main "HOL-Library.AList"
begin

section \<open>The generic tree produced by the decoder\<close>

text \<open>
  \<^verbatim>\<open>hcl.Decode\<close> fills an \<^verbatim>\<open>interface{}\<close>. The dynamic types that
  \<^verbatim>\<open>flattenKeys\<close> and \<^verbatim>\<open>Parse\<close> tell apart are
  \<^verbatim>\<open>[]map[string]interface{}\<close> (a block, written once or several times),
  \<^verbatim>\<open>map[string]interface{}\<close> and everything else. A Go map is an association
  list here, read with \<open>map_of\<close>; the maps of one decoded tree are not shared
  between two keys, so the in-place updates of the source are updates of values.
  A float is carried as its bit pattern: no function of the file computes with it.
\<close>

datatype gval =
    GNil
  | GString string
  | GInt int
  | GBool bool
  | GFloat int
  | GList "gval list"
  | GMapList "(string \<times> gval) list list"
  | GMap "(string \<times> gval) list"

type_synonym gmap = "(string \<times> gval) list"

section \<open>flattenKeys\<close>

text \<open>
  \<^verbatim>\<open>mapKey := k; if parent != "" { mapKey = parent + "." + k }\<close>
\<close>

definition mapKey :: "string \<Rightarrow> string \<Rightarrow> string" where
  "mapKey parent k = (if parent \<noteq> [] then parent @ ''.'' @ k else k)"

lemma size_last_block:
  "ms \<noteq> [] \<Longrightarrow> size_list (size_prod (\<lambda>_. 0) size) (last ms)
      \<le> size_list (size_list (size_prod (\<lambda>_. 0) size)) ms"
  by (induction ms) (auto simp: le_SucI trans_le_add2)

text \<open>
  The closure \<^verbatim>\<open>flatten\<close> of \<^verbatim>\<open>flattenKeys\<close>. \<open>flatten\<close> is the
  \<^verbatim>\<open>for k, v := range m\<close> loop, one entry at a time; \<open>flatten_value\<close> is the
  type switch on \<^verbatim>\<open>v\<close>, reached only when \<^verbatim>\<open>mapKey\<close> is in
  \<^verbatim>\<open>keyMap\<close>, and gives the value stored back at \<^verbatim>\<open>m[k]\<close>.
\<close>

function flatten :: "string list \<Rightarrow> string \<Rightarrow> gmap \<Rightarrow> gmap"
  and flatten_value :: "string list \<Rightarrow> string \<Rightarrow> gval \<Rightarrow> gval"
where
  "flatten keys parent [] = []"
| "flatten keys parent ((k, v) # m) =
     (k, if mapKey parent k \<in> set keys then flatten_value keys (mapKey parent k) v else v)
       # flatten keys parent m"
| "flatten_value keys mk (GMapList typed) =
     (if length typed > 0 then GMap (flatten keys mk (last typed)) else GNil)"
| "flatten_value keys mk (GMap typed) = GMap (flatten keys mk typed)"
| "flatten_value keys mk GNil = GNil"
| "flatten_value keys mk (GString s) = GString s"
| "flatten_value keys mk (GInt i) = GInt i"
| "flatten_value keys mk (GBool b) = GBool b"
| "flatten_value keys mk (GFloat f) = GFloat f"
| "flatten_value keys mk (GList vs) = GList vs"
  by pat_completeness auto
termination
proof (relation "measure (\<lambda>x. case x of
          Inl (_, _, m) \<Rightarrow> size_list (size_prod (\<lambda>_. 0) size) m
        | Inr (_, _, v) \<Rightarrow> size v)", goal_cases)
  case 1
  show ?case by simp
next
  case (2 keys parent k v m)
  show ?case by simp
next
  case (3 keys parent k v m)
  show ?case by simp
next
  case (4 keys mk typed)
  then have "typed \<noteq> []" by simp
  from size_last_block [OF this] show ?case by simp
next
  case (5 keys mk typed)
  show ?case by simp
qed

definition flattenKeys :: "gmap \<Rightarrow> string list \<Rightarrow> gmap" where
  "flattenKeys m keys = flatten keys [] m"

section \<open>Parse: the rewrites between decoding and binding\<close>

text \<open>The key lists of the two \<^verbatim>\<open>flattenKeys\<close> calls of \<^verbatim>\<open>Parse\<close>.\<close>

definition stanza_keys :: "string list" where
  "stanza_keys = [''consul'', ''consul.auth'', ''consul.retry'', ''consul.ssl'',
     ''consul.transport'', ''syslog'', ''wait'']"

definition deprecated_keys :: "string list" where
  "deprecated_keys = [''auth'', ''ssl'']"


text \<open>
  Each \<^verbatim>\<open>log.Printf("[WARN] ...")\<close> of \<^verbatim>\<open>Parse\<close> is one entry of the
  log the model returns: \<open>WarnAuth\<close> for "auth is now a child stanza inside consul",
  \<open>WarnPath\<close> for "path is no longer a key in the configuration", \<open>WarnRetry\<close> for
  "retry is now a child stanza for consul", \<open>WarnSSL\<close> for "ssl is now a child stanza
  for consul", \<open>WarnToken\<close> for "token is now a child stanza inside consul".
\<close>

datatype warning = WarnAuth | WarnPath | WarnRetry | WarnSSL | WarnToken

text \<open>
  \<^verbatim>\<open>consul, ok := parsed["consul"].(map[string]interface{});
  if !ok { consul = map[string]interface{}{} }\<close>
\<close>

definition consul_stanza :: "gmap \<Rightarrow> gmap" where
  "consul_stanza parsed =
     (case map_of parsed ''consul'' of Some (GMap consul) \<Rightarrow> consul | _ \<Rightarrow> [])"

text \<open>
  The five \<^verbatim>\<open>if v, ok := parsed[key]; ok { ... }\<close> blocks, in the order of the
  source. Each takes and returns the mapping and the log.
\<close>

definition promote_auth :: "gmap \<times> warning list \<Rightarrow> gmap \<times> warning list" where
  "promote_auth = (\<lambda>(parsed, log).
     case map_of parsed ''auth'' of
       None \<Rightarrow> (parsed, log)
     | Some auth \<Rightarrow>
         (let consul = AList.update ''auth'' auth (consul_stanza parsed)
          in (AList.delete ''auth'' (AList.update ''consul'' (GMap consul) parsed),
              log @ [WarnAuth])))"

definition drop_path :: "gmap \<times> warning list \<Rightarrow> gmap \<times> warning list" where
  "drop_path = (\<lambda>(parsed, log).
     case map_of parsed ''path'' of
       None \<Rightarrow> (parsed, log)
     | Some _ \<Rightarrow> (AList.delete ''path'' parsed, log @ [WarnPath]))"

definition promote_retry :: "gmap \<times> warning list \<Rightarrow> gmap \<times> warning list" where
  "promote_retry = (\<lambda>(parsed, log).
     case map_of parsed ''retry'' of
       None \<Rightarrow> (parsed, log)
     | Some retry \<Rightarrow>
         (let consul = consul_stanza parsed;
              r = [(''backoff'', retry), (''max_backoff'', retry)];
              consul = AList.update ''retry'' (GMap r) consul
          in (AList.delete ''retry'' (AList.update ''consul'' (GMap consul) parsed),
              log @ [WarnRetry])))"

definition promote_ssl :: "gmap \<times> warning list \<Rightarrow> gmap \<times> warning list" where
  "promote_ssl = (\<lambda>(parsed, log).
     case map_of parsed ''ssl'' of
       None \<Rightarrow> (parsed, log)
     | Some ssl \<Rightarrow>
         (let consul = AList.update ''ssl'' ssl (consul_stanza parsed)
          in (AList.delete ''ssl'' (AList.update ''consul'' (GMap consul) parsed),
              log @ [WarnSSL])))"

definition promote_token :: "gmap \<times> warning list \<Rightarrow> gmap \<times> warning list" where
  "promote_token = (\<lambda>(parsed, log).
     case map_of parsed ''token'' of
       None \<Rightarrow> (parsed, log)
     | Some token \<Rightarrow>
         (let consul = AList.update ''token'' token (consul_stanza parsed)
          in (AList.delete ''token'' (AList.update ''consul'' (GMap consul) parsed),
              log @ [WarnToken])))"

text \<open>
  Lines 306 to 385 of \<^verbatim>\<open>Parse\<close>: the two flattening passes, then the
  deprecations, on the mapping the decoder returned.
\<close>

definition normalize :: "gmap \<Rightarrow> gmap \<times> warning list" where
  "normalize parsed =
     promote_token (promote_ssl (promote_retry (drop_path (promote_auth
       (flattenKeys (flattenKeys parsed stanza_keys) deprecated_keys, [])))))"

section \<open>The fields of Config\<close>

text \<open>
  The twelve fields of \<^verbatim>\<open>type Config struct\<close>, in the order of their
  declaration, and the \<^verbatim>\<open>mapstructure\<close> tag each one carries in the source.
\<close>

datatype field_name =
    FConsul | FDestinationConsul | FExcludes | FKillSignal | FLogLevel | FMaxStale
  | FPidFile | FPrefixes | FReloadSignal | FStatusDir | FSyslog | FWait

definition Config_fields :: "field_name list" where
  "Config_fields = [FConsul, FDestinationConsul, FExcludes, FKillSignal, FLogLevel,
     FMaxStale, FPidFile, FPrefixes, FReloadSignal, FStatusDir, FSyslog, FWait]"


section \<open>Parse: decoding and binding\<close>























section \<open>Pointers and the heap\<close>

text \<open>
  Every field of \<^verbatim>\<open>Config\<close> is a pointer, and \<^verbatim>\<open>Copy\<close>, \<^verbatim>\<open>Merge\<close> and
  \<^verbatim>\<open>Finalize\<close> differ in which pointers they copy and which objects they copy, so
  the objects live in an explicit heap. A store holds the objects of one Go type: a
  pointer is an address (\<open>None\<close> is \<^verbatim>\<open>nil\<close>), \<open>cell\<close> is the object at an
  address and \<open>next_addr\<close> the first address never handed out. Go has no dangling
  pointer: the pointers of a running program are below \<open>next_addr\<close>.
\<close>

type_synonym addr = nat

record 'a store =
  cell :: "addr \<Rightarrow> 'a"
  next_addr :: addr

definition alloc :: "'a \<Rightarrow> 'a store \<Rightarrow> addr \<times> 'a store" where
  "alloc v s = (next_addr s, s\<lparr>cell := (cell s)(next_addr s := v), next_addr := Suc (next_addr s)\<rparr>)"

definition assign :: "addr \<Rightarrow> 'a \<Rightarrow> 'a store \<Rightarrow> 'a store" where
  "assign p v s = s\<lparr>cell := (cell s)(p := v)\<rparr>"

record Config =
  Consul :: "addr option"
  DestinationConsul :: "addr option"
  Excludes :: "addr option"
  KillSignal :: "addr option"
  LogLevel :: "addr option"
  MaxStale :: "addr option"
  PidFile :: "addr option"
  Prefixes :: "addr option"
  ReloadSignal :: "addr option"
  StatusDir :: "addr option"
  Syslog :: "addr option"
  Wait :: "addr option"

text \<open>\<^verbatim>\<open>var o Config\<close>: the zero value, every pointer \<^verbatim>\<open>nil\<close>.\<close>

definition Config_zero :: Config where
  "Config_zero = \<lparr>Consul = None, DestinationConsul = None, Excludes = None,
     KillSignal = None, LogLevel = None, MaxStale = None, PidFile = None, Prefixes = None,
     ReloadSignal = None, StatusDir = None, Syslog = None, Wait = None\<rparr>"

text \<open>The pointer a field holds, by the field's name.\<close>

fun ptr :: "Config \<Rightarrow> field_name \<Rightarrow> addr option" where
  "ptr c FConsul = Consul c"
| "ptr c FDestinationConsul = DestinationConsul c"
| "ptr c FExcludes = Excludes c"
| "ptr c FKillSignal = KillSignal c"
| "ptr c FLogLevel = LogLevel c"
| "ptr c FMaxStale = MaxStale c"
| "ptr c FPidFile = PidFile c"
| "ptr c FPrefixes = Prefixes c"
| "ptr c FReloadSignal = ReloadSignal c"
| "ptr c FStatusDir = StatusDir c"
| "ptr c FSyslog = Syslog c"
| "ptr c FWait = Wait c"

text \<open>
  Modelled from the spec: the contents of the nested stanzas. \<^verbatim>\<open>ConsulConfig\<close>,
  \<^verbatim>\<open>SyslogConfig\<close> and \<^verbatim>\<open>WaitConfig\<close> belong to the consul-template library, and
  \<^verbatim>\<open>ExcludeConfigs\<close> and \<^verbatim>\<open>PrefixConfigs\<close> are files of this repository that are
  not under src/. Section 3 of the spec makes every field of an entity independently
  present or absent: an entity is a partial map from its field names (dotted for the
  fields of a sub-stanza) to their values. Excludes and prefixes are collections: lists
  of entities.
\<close>

type_synonym entity = "string \<rightharpoonup> string"

record heap =
  configs :: "Config store"
  consuls :: "entity store"
  excludes :: "entity list store"
  prefixes :: "entity list store"
  syslogs :: "entity store"
  waits :: "entity store"
  strings :: "string store"
  durations :: "int store"
  signals :: "int store"

definition obj :: "heap \<Rightarrow> addr \<Rightarrow> Config" where
  "obj h p = cell (configs h) p"

definition set_obj :: "addr \<Rightarrow> Config \<Rightarrow> heap \<Rightarrow> heap" where
  "set_obj p c h = h\<lparr>configs := assign p c (configs h)\<rparr>"

section \<open>The operations of the nested stanzas\<close>

text \<open>
  Modelled from the spec: \<^verbatim>\<open>Copy\<close>, \<^verbatim>\<open>Merge\<close> and \<^verbatim>\<open>Finalize\<close> of the nested
  stanza types, whose code is not under src/. By section 4.1 each nested entity type
  provides the same three operations as Config: \<^verbatim>\<open>Copy\<close> returns an independent deep
  copy and \<^verbatim>\<open>nil\<close> for a \<^verbatim>\<open>nil\<close> receiver; \<^verbatim>\<open>Merge\<close> returns \<^verbatim>\<open>nil\<close> for two
  \<^verbatim>\<open>nil\<close>s, a copy of the one that is present when the other is \<^verbatim>\<open>nil\<close>, and
  otherwise a new object holding the right-biased merge; \<^verbatim>\<open>Finalize\<close> fills the
  receiver in place. \<open>mrg\<close> merges two contents and \<open>fin\<close> fills one.
\<close>

definition stanza_Copy :: "addr option \<Rightarrow> 'a store \<Rightarrow> addr option \<times> 'a store" where
  "stanza_Copy c s =
     (case c of
        None \<Rightarrow> (None, s)
      | Some p \<Rightarrow> (let (q, s') = alloc (cell s p) s in (Some q, s')))"

definition stanza_Merge ::
  "('a \<Rightarrow> 'a \<Rightarrow> 'a) \<Rightarrow> addr option \<Rightarrow> addr option \<Rightarrow> 'a store \<Rightarrow> addr option \<times> 'a store" where
  "stanza_Merge mrg c other s =
     (case c of
        None \<Rightarrow> (case other of None \<Rightarrow> (None, s) | Some _ \<Rightarrow> stanza_Copy other s)
      | Some p \<Rightarrow>
          (case other of
             None \<Rightarrow> stanza_Copy c s
           | Some q \<Rightarrow> (let (r, s') = alloc (mrg (cell s p) (cell s q)) s in (Some r, s'))))"

definition stanza_Finalize :: "('a \<Rightarrow> 'a) \<Rightarrow> addr option \<Rightarrow> 'a store \<Rightarrow> 'a store" where
  "stanza_Finalize fin c s =
     (case c of None \<Rightarrow> s | Some p \<Rightarrow> assign p (fin (cell s p)) s)"

text \<open>
  Modelled from the spec: the merge and the defaulting of the contents. By section 3 a
  merge is right-biased and field-granular (a field present on the right overwrites the
  left, a field absent on the right keeps the left), and a collection present on the
  right replaces the left one wholesale. \<^verbatim>\<open>Finalize\<close> fills every absent field
  with its static default; the defaults registry of section 2 is the parameter \<open>reg\<close>,
  which gives the default of every field of a kind of stanza.
\<close>

definition entity_merge :: "entity \<Rightarrow> entity \<Rightarrow> entity" where
  "entity_merge a b = a ++ b"

definition collection_merge :: "entity list \<Rightarrow> entity list \<Rightarrow> entity list" where
  "collection_merge a b = b"

datatype stanza_kind = KConsul | KExclude | KPrefix | KSyslog | KWait

type_synonym registry = "stanza_kind \<Rightarrow> entity"

definition entity_fill :: "entity \<Rightarrow> entity \<Rightarrow> entity" where
  "entity_fill defaults e = defaults ++ e"

definition collection_fill :: "entity \<Rightarrow> entity list \<Rightarrow> entity list" where
  "collection_fill defaults es = map (entity_fill defaults) es"

text \<open>
  Modelled from the spec: the constructors \<^verbatim>\<open>DefaultConsulConfig\<close>,
  \<^verbatim>\<open>DefaultExcludeConfigs\<close>, \<^verbatim>\<open>DefaultPrefixConfigs\<close>, \<^verbatim>\<open>DefaultSyslogConfig\<close> and
  \<^verbatim>\<open>DefaultWaitConfig\<close> return the shallow, non-nil defaults of section 3: a new
  entity with no field set, a new empty collection.
\<close>

definition Default_entity :: "entity store \<Rightarrow> addr \<times> entity store" where
  "Default_entity s = alloc Map.empty s"

definition Default_collection :: "entity list store \<Rightarrow> addr \<times> entity list store" where
  "Default_collection s = alloc [] s"

section \<open>Defaults and the environment\<close>

text \<open>
  The constants of the source. A duration is its number of nanoseconds
  (\<^verbatim>\<open>2 * time.Second\<close>), a signal its number (\<^verbatim>\<open>syscall.SIGHUP\<close> is 1 and
  \<^verbatim>\<open>syscall.SIGINT\<close> is 2).
\<close>

definition DefaultLogLevel :: string where
  "DefaultLogLevel = ''WARN''"

definition DefaultMaxStale :: int where
  "DefaultMaxStale = 2 * 1000000000"

definition DefaultReloadSignal :: int where
  "DefaultReloadSignal = 1"

definition DefaultKillSignal :: int where
  "DefaultKillSignal = 2"

definition DefaultStatusDir :: string where
  "DefaultStatusDir = ''service/consul-replicate/statuses''"

text \<open>
  \<^verbatim>\<open>strings.TrimSpace\<close> of the Go standard library removes the leading and the
  trailing white space "as defined by Unicode". A string is its UTF-8 bytes;
  \<open>white_space\<close> lists the encodings of the code points \<^verbatim>\<open>unicode.IsSpace\<close>
  accepts: tab, line feed, vertical tab, form feed, carriage return, space, U+0085,
  U+00A0, U+1680, U+2000 to U+200A, U+2028, U+2029, U+202F, U+205F and U+3000.
\<close>

definition white_space :: "string list" where
  "white_space =
     [[CHR 0x09], [CHR 0x0A], [CHR 0x0B], [CHR 0x0C], [CHR 0x0D], [CHR 0x20],
      [CHR 0xC2, CHR 0x85], [CHR 0xC2, CHR 0xA0], [CHR 0xE1, CHR 0x9A, CHR 0x80],
      [CHR 0xE2, CHR 0x80, CHR 0x80], [CHR 0xE2, CHR 0x80, CHR 0x81],
      [CHR 0xE2, CHR 0x80, CHR 0x82], [CHR 0xE2, CHR 0x80, CHR 0x83],
      [CHR 0xE2, CHR 0x80, CHR 0x84], [CHR 0xE2, CHR 0x80, CHR 0x85],
      [CHR 0xE2, CHR 0x80, CHR 0x86], [CHR 0xE2, CHR 0x80, CHR 0x87],
      [CHR 0xE2, CHR 0x80, CHR 0x88], [CHR 0xE2, CHR 0x80, CHR 0x89],
      [CHR 0xE2, CHR 0x80, CHR 0x8A], [CHR 0xE2, CHR 0x80, CHR 0xA8],
      [CHR 0xE2, CHR 0x80, CHR 0xA9], [CHR 0xE2, CHR 0x80, CHR 0xAF],
      [CHR 0xE2, CHR 0x81, CHR 0x9F], [CHR 0xE3, CHR 0x80, CHR 0x80]]"

text \<open>The number of bytes of the white space a string starts with, 0 when it starts with none.\<close>

fun leading_space :: "string list \<Rightarrow> string \<Rightarrow> nat" where
  "leading_space [] s = 0"
| "leading_space (w # ws) s =
     (if w \<noteq> [] \<and> take (length w) s = w then length w else leading_space ws s)"

lemma leading_space_le: "leading_space ws s \<le> length s"
proof (induction ws)
  case Nil
  show ?case by simp
next
  case (Cons w ws)
  show ?case
  proof (cases "w \<noteq> [] \<and> take (length w) s = w")
    case True
    then have "length (take (length w) s) = length w" by simp
    then have "length w \<le> length s" by simp
    with True show ?thesis by simp
  next
    case False
    with Cons show ?thesis by auto
  qed
qed

function trim_left :: "string list \<Rightarrow> string \<Rightarrow> string" where
  "trim_left ws s =
     (case leading_space ws s of 0 \<Rightarrow> s | Suc n \<Rightarrow> trim_left ws (drop (Suc n) s))"
  by pat_completeness auto
termination
proof (relation "measure (\<lambda>(ws, s). length s)", goal_cases)
  case 1
  show ?case by simp
next
  case (2 ws s n)
  have "leading_space ws s \<le> length s" by (rule leading_space_le)
  with 2 have "s \<noteq> []" by auto
  then show ?case by simp
qed

definition TrimSpace :: "string \<Rightarrow> string" where
  "TrimSpace s = rev (trim_left (map rev white_space) (rev (trim_left white_space s)))"

text \<open>
  \<^verbatim>\<open>stringFromEnv\<close>. \<open>Getenv\<close> is \<^verbatim>\<open>os.Getenv\<close>: the value of a variable, the
  empty string when it is not set. \<^verbatim>\<open>config.String\<close> (like \<^verbatim>\<open>config.Signal\<close> and
  \<^verbatim>\<open>config.TimeDuration\<close>) returns a pointer to a new variable that holds its
  argument: an \<open>alloc\<close>.
\<close>

fun stringFromEnv ::
  "(string \<Rightarrow> string) \<Rightarrow> string list \<Rightarrow> string \<Rightarrow> string store \<Rightarrow> addr \<times> string store" where
  "stringFromEnv Getenv [] def strs = alloc def strs"
| "stringFromEnv Getenv (s # list) def strs =
     (let v = Getenv s
      in if v \<noteq> [] then alloc (TrimSpace v) strs
         else stringFromEnv Getenv list def strs)"

section \<open>Config.Copy\<close>

text \<open>A method that reads a field of a \<^verbatim>\<open>nil\<close> receiver panics.\<close>

datatype fault = NilDereference

text \<open>
  \<^verbatim>\<open>Copy\<close> has no \<^verbatim>\<open>nil\<close> check: its first statement after \<^verbatim>\<open>var o Config\<close>
  reads \<^verbatim>\<open>c.Consul\<close>. The five stanzas are copied by their own \<^verbatim>\<open>Copy\<close>, the six
  scalar fields are assigned (\<^verbatim>\<open>o.LogLevel = c.LogLevel\<close> copies the pointer), and
  no statement assigns \<^verbatim>\<open>o.DestinationConsul\<close>. \<^verbatim>\<open>return &o\<close> is the allocation
  of the new object.
\<close>

definition Copy :: "addr option \<Rightarrow> heap \<Rightarrow> fault + (addr \<times> heap)" where
  "Copy c h =
     (case c of
        None \<Rightarrow> Inl NilDereference
      | Some pc \<Rightarrow>
          (let src = obj h pc;
               (consul, cs) = (if Consul src \<noteq> None then stanza_Copy (Consul src) (consuls h)
                               else (None, consuls h));
               (excl, es) = (if Excludes src \<noteq> None then stanza_Copy (Excludes src) (excludes h)
                             else (None, excludes h));
               (pref, ps) = (if Prefixes src \<noteq> None then stanza_Copy (Prefixes src) (prefixes h)
                             else (None, prefixes h));
               (sysl, ss) = (if Syslog src \<noteq> None then stanza_Copy (Syslog src) (syslogs h)
                             else (None, syslogs h));
               (wt, ws) = (if Wait src \<noteq> None then stanza_Copy (Wait src) (waits h)
                           else (None, waits h));
               (po, cfgs) = alloc
                 (Config_zero\<lparr>Consul := consul, Excludes := excl,
                    KillSignal := KillSignal src, LogLevel := LogLevel src,
                    MaxStale := MaxStale src, PidFile := PidFile src, Prefixes := pref,
                    ReloadSignal := ReloadSignal src, StatusDir := StatusDir src,
                    Syslog := sysl, Wait := wt\<rparr>) (configs h)
           in Inr (po, h\<lparr>configs := cfgs, consuls := cs, excludes := es, prefixes := ps,
                       syslogs := ss, waits := ws\<rparr>)))"

section \<open>Config.Merge\<close>

text \<open>
  The eleven \<^verbatim>\<open>if o.X != nil { ... }\<close> blocks of \<^verbatim>\<open>Merge\<close>, each on the pointer
  \<open>r\<close> of the copy and the pointer \<open>other\<close> of the argument: a stanza is merged by
  its own \<^verbatim>\<open>Merge\<close> (\<^verbatim>\<open>r.Consul = r.Consul.Merge(o.Consul)\<close>), a scalar field takes
  the argument's pointer (\<^verbatim>\<open>r.LogLevel = o.LogLevel\<close>).
\<close>

definition merge_Consul :: "addr \<Rightarrow> addr \<Rightarrow> heap \<Rightarrow> heap" where
  "merge_Consul r other h =
     (if Consul (obj h other) \<noteq> None then
        (let (m, s) = stanza_Merge entity_merge (Consul (obj h r)) (Consul (obj h other)) (consuls h)
         in set_obj r ((obj h r)\<lparr>Consul := m\<rparr>) (h\<lparr>consuls := s\<rparr>))
      else h)"

definition merge_Excludes :: "addr \<Rightarrow> addr \<Rightarrow> heap \<Rightarrow> heap" where
  "merge_Excludes r other h =
     (if Excludes (obj h other) \<noteq> None then
        (let (m, s) = stanza_Merge collection_merge (Excludes (obj h r)) (Excludes (obj h other))
                        (excludes h)
         in set_obj r ((obj h r)\<lparr>Excludes := m\<rparr>) (h\<lparr>excludes := s\<rparr>))
      else h)"

definition merge_KillSignal :: "addr \<Rightarrow> addr \<Rightarrow> heap \<Rightarrow> heap" where
  "merge_KillSignal r other h =
     (if KillSignal (obj h other) \<noteq> None
      then set_obj r ((obj h r)\<lparr>KillSignal := KillSignal (obj h other)\<rparr>) h else h)"

definition merge_LogLevel :: "addr \<Rightarrow> addr \<Rightarrow> heap \<Rightarrow> heap" where
  "merge_LogLevel r other h =
     (if LogLevel (obj h other) \<noteq> None
      then set_obj r ((obj h r)\<lparr>LogLevel := LogLevel (obj h other)\<rparr>) h else h)"

definition merge_MaxStale :: "addr \<Rightarrow> addr \<Rightarrow> heap \<Rightarrow> heap" where
  "merge_MaxStale r other h =
     (if MaxStale (obj h other) \<noteq> None
      then set_obj r ((obj h r)\<lparr>MaxStale := MaxStale (obj h other)\<rparr>) h else h)"

definition merge_PidFile :: "addr \<Rightarrow> addr \<Rightarrow> heap \<Rightarrow> heap" where
  "merge_PidFile r other h =
     (if PidFile (obj h other) \<noteq> None
      then set_obj r ((obj h r)\<lparr>PidFile := PidFile (obj h other)\<rparr>) h else h)"

definition merge_Prefixes :: "addr \<Rightarrow> addr \<Rightarrow> heap \<Rightarrow> heap" where
  "merge_Prefixes r other h =
     (if Prefixes (obj h other) \<noteq> None then
        (let (m, s) = stanza_Merge collection_merge (Prefixes (obj h r)) (Prefixes (obj h other))
                        (prefixes h)
         in set_obj r ((obj h r)\<lparr>Prefixes := m\<rparr>) (h\<lparr>prefixes := s\<rparr>))
      else h)"

definition merge_ReloadSignal :: "addr \<Rightarrow> addr \<Rightarrow> heap \<Rightarrow> heap" where
  "merge_ReloadSignal r other h =
     (if ReloadSignal (obj h other) \<noteq> None
      then set_obj r ((obj h r)\<lparr>ReloadSignal := ReloadSignal (obj h other)\<rparr>) h else h)"

definition merge_StatusDir :: "addr \<Rightarrow> addr \<Rightarrow> heap \<Rightarrow> heap" where
  "merge_StatusDir r other h =
     (if StatusDir (obj h other) \<noteq> None
      then set_obj r ((obj h r)\<lparr>StatusDir := StatusDir (obj h other)\<rparr>) h else h)"

definition merge_Syslog :: "addr \<Rightarrow> addr \<Rightarrow> heap \<Rightarrow> heap" where
  "merge_Syslog r other h =
     (if Syslog (obj h other) \<noteq> None then
        (let (m, s) = stanza_Merge entity_merge (Syslog (obj h r)) (Syslog (obj h other)) (syslogs h)
         in set_obj r ((obj h r)\<lparr>Syslog := m\<rparr>) (h\<lparr>syslogs := s\<rparr>))
      else h)"

definition merge_Wait :: "addr \<Rightarrow> addr \<Rightarrow> heap \<Rightarrow> heap" where
  "merge_Wait r other h =
     (if Wait (obj h other) \<noteq> None then
        (let (m, s) = stanza_Merge entity_merge (Wait (obj h r)) (Wait (obj h other)) (waits h)
         in set_obj r ((obj h r)\<lparr>Wait := m\<rparr>) (h\<lparr>waits := s\<rparr>))
      else h)"

text \<open>
  \<^verbatim>\<open>Merge\<close>: the two \<^verbatim>\<open>nil\<close> checks, then \<^verbatim>\<open>r := c.Copy()\<close> and the eleven
  blocks in the order of the source. No block names \<^verbatim>\<open>DestinationConsul\<close>.
\<close>

definition Merge :: "addr option \<Rightarrow> addr option \<Rightarrow> heap \<Rightarrow> fault + (addr option \<times> heap)" where
  "Merge c other h =
     (case c of
        None \<Rightarrow>
          (case other of
             None \<Rightarrow> Inr (None, h)
           | Some _ \<Rightarrow>
               (case Copy other h of Inl e \<Rightarrow> Inl e | Inr (p, h') \<Rightarrow> Inr (Some p, h')))
      | Some _ \<Rightarrow>
          (case other of
             None \<Rightarrow>
               (case Copy c h of Inl e \<Rightarrow> Inl e | Inr (p, h') \<Rightarrow> Inr (Some p, h'))
           | Some po \<Rightarrow>
               (case Copy c h of
                  Inl e \<Rightarrow> Inl e
                | Inr (r, h') \<Rightarrow>
                    Inr (Some r,
                      fold (\<lambda>block. block r po)
                        [merge_Consul, merge_Excludes, merge_KillSignal, merge_LogLevel,
                         merge_MaxStale, merge_PidFile, merge_Prefixes, merge_ReloadSignal,
                         merge_StatusDir, merge_Syslog, merge_Wait] h'))))"

section \<open>Config.Finalize\<close>

text \<open>
  The eleven blocks of \<^verbatim>\<open>Finalize\<close>, each on the receiver \<open>c\<close>. A stanza that is
  \<^verbatim>\<open>nil\<close> gets its default constructor's object and is then finalized in place
  (\<^verbatim>\<open>c.Consul.Finalize()\<close>); a scalar field that is \<^verbatim>\<open>nil\<close> gets a pointer to a
  new variable holding the default.
\<close>

definition finalize_Consul :: "registry \<Rightarrow> addr \<Rightarrow> heap \<Rightarrow> heap" where
  "finalize_Consul reg c h =
     (let h = (if Consul (obj h c) = None then
                 (let (p, s) = Default_entity (consuls h)
                  in set_obj c ((obj h c)\<lparr>Consul := Some p\<rparr>) (h\<lparr>consuls := s\<rparr>))
               else h)
      in h\<lparr>consuls := stanza_Finalize (entity_fill (reg KConsul)) (Consul (obj h c)) (consuls h)\<rparr>)"

definition finalize_Excludes :: "registry \<Rightarrow> addr \<Rightarrow> heap \<Rightarrow> heap" where
  "finalize_Excludes reg c h =
     (let h = (if Excludes (obj h c) = None then
                 (let (p, s) = Default_collection (excludes h)
                  in set_obj c ((obj h c)\<lparr>Excludes := Some p\<rparr>) (h\<lparr>excludes := s\<rparr>))
               else h)
      in h\<lparr>excludes :=
             stanza_Finalize (collection_fill (reg KExclude)) (Excludes (obj h c)) (excludes h)\<rparr>)"

definition finalize_KillSignal :: "addr \<Rightarrow> heap \<Rightarrow> heap" where
  "finalize_KillSignal c h =
     (if KillSignal (obj h c) = None then
        (let (p, s) = alloc DefaultKillSignal (signals h)
         in set_obj c ((obj h c)\<lparr>KillSignal := Some p\<rparr>) (h\<lparr>signals := s\<rparr>))
      else h)"

definition finalize_LogLevel :: "(string \<Rightarrow> string) \<Rightarrow> addr \<Rightarrow> heap \<Rightarrow> heap" where
  "finalize_LogLevel Getenv c h =
     (if LogLevel (obj h c) = None then
        (let (p, s) = stringFromEnv Getenv [''CR_LOG'', ''CONSUL_REPLICATE_LOG'']
                        DefaultLogLevel (strings h)
         in set_obj c ((obj h c)\<lparr>LogLevel := Some p\<rparr>) (h\<lparr>strings := s\<rparr>))
      else h)"

definition finalize_MaxStale :: "addr \<Rightarrow> heap \<Rightarrow> heap" where
  "finalize_MaxStale c h =
     (if MaxStale (obj h c) = None then
        (let (p, s) = alloc DefaultMaxStale (durations h)
         in set_obj c ((obj h c)\<lparr>MaxStale := Some p\<rparr>) (h\<lparr>durations := s\<rparr>))
      else h)"

definition finalize_Prefixes :: "registry \<Rightarrow> addr \<Rightarrow> heap \<Rightarrow> heap" where
  "finalize_Prefixes reg c h =
     (let h = (if Prefixes (obj h c) = None then
                 (let (p, s) = Default_collection (prefixes h)
                  in set_obj c ((obj h c)\<lparr>Prefixes := Some p\<rparr>) (h\<lparr>prefixes := s\<rparr>))
               else h)
      in h\<lparr>prefixes :=
             stanza_Finalize (collection_fill (reg KPrefix)) (Prefixes (obj h c)) (prefixes h)\<rparr>)"

definition finalize_PidFile :: "addr \<Rightarrow> heap \<Rightarrow> heap" where
  "finalize_PidFile c h =
     (if PidFile (obj h c) = None then
        (let (p, s) = alloc [] (strings h)
         in set_obj c ((obj h c)\<lparr>PidFile := Some p\<rparr>) (h\<lparr>strings := s\<rparr>))
      else h)"

definition finalize_ReloadSignal :: "addr \<Rightarrow> heap \<Rightarrow> heap" where
  "finalize_ReloadSignal c h =
     (if ReloadSignal (obj h c) = None then
        (let (p, s) = alloc DefaultReloadSignal (signals h)
         in set_obj c ((obj h c)\<lparr>ReloadSignal := Some p\<rparr>) (h\<lparr>signals := s\<rparr>))
      else h)"

definition finalize_StatusDir :: "addr \<Rightarrow> heap \<Rightarrow> heap" where
  "finalize_StatusDir c h =
     (if StatusDir (obj h c) = None then
        (let (p, s) = alloc DefaultStatusDir (strings h)
         in set_obj c ((obj h c)\<lparr>StatusDir := Some p\<rparr>) (h\<lparr>strings := s\<rparr>))
      else h)"

definition finalize_Syslog :: "registry \<Rightarrow> addr \<Rightarrow> heap \<Rightarrow> heap" where
  "finalize_Syslog reg c h =
     (let h = (if Syslog (obj h c) = None then
                 (let (p, s) = Default_entity (syslogs h)
                  in set_obj c ((obj h c)\<lparr>Syslog := Some p\<rparr>) (h\<lparr>syslogs := s\<rparr>))
               else h)
      in h\<lparr>syslogs := stanza_Finalize (entity_fill (reg KSyslog)) (Syslog (obj h c)) (syslogs h)\<rparr>)"

definition finalize_Wait :: "registry \<Rightarrow> addr \<Rightarrow> heap \<Rightarrow> heap" where
  "finalize_Wait reg c h =
     (let h = (if Wait (obj h c) = None then
                 (let (p, s) = Default_entity (waits h)
                  in set_obj c ((obj h c)\<lparr>Wait := Some p\<rparr>) (h\<lparr>waits := s\<rparr>))
               else h)
      in h\<lparr>waits := stanza_Finalize (entity_fill (reg KWait)) (Wait (obj h c)) (waits h)\<rparr>)"

text \<open>
  \<^verbatim>\<open>Finalize\<close>: nothing for a \<^verbatim>\<open>nil\<close> receiver, else the eleven blocks in the
  order of the source. No block names \<^verbatim>\<open>DestinationConsul\<close>.
\<close>

definition Finalize :: "registry \<Rightarrow> (string \<Rightarrow> string) \<Rightarrow> addr option \<Rightarrow> heap \<Rightarrow> heap" where
  "Finalize reg Getenv c h =
     (case c of
        None \<Rightarrow> h
      | Some pc \<Rightarrow>
          fold (\<lambda>block. block pc)
            [finalize_Consul reg, finalize_Excludes reg, finalize_KillSignal,
             finalize_LogLevel Getenv, finalize_MaxStale, finalize_Prefixes reg,
             finalize_PidFile, finalize_ReloadSignal, finalize_StatusDir,
             finalize_Syslog reg, finalize_Wait reg] h)"

section \<open>DefaultConfig and TestConfig\<close>

text \<open>
  \<^verbatim>\<open>DefaultConfig\<close> sets seven fields, \<^verbatim>\<open>DestinationConsul\<close> among them, each
  to a new default object. \<^verbatim>\<open>TestConfig\<close> is
  \<^verbatim>\<open>d := DefaultConfig().Merge(c); d.Finalize(); return d\<close>.
\<close>

definition DefaultConfig :: "heap \<Rightarrow> addr \<times> heap" where
  "DefaultConfig h =
     (let (consul, cs) = Default_entity (consuls h);
          (dest, cs) = Default_entity cs;
          (excl, es) = Default_collection (excludes h);
          (pref, ps) = Default_collection (prefixes h);
          (dir, strs) = alloc DefaultStatusDir (strings h);
          (sysl, ss) = Default_entity (syslogs h);
          (wt, ws) = Default_entity (waits h);
          (p, cfgs) = alloc
            (Config_zero\<lparr>Consul := Some consul, DestinationConsul := Some dest,
               Excludes := Some excl, Prefixes := Some pref, StatusDir := Some dir,
               Syslog := Some sysl, Wait := Some wt\<rparr>) (configs h)
      in (p, h\<lparr>configs := cfgs, consuls := cs, excludes := es, prefixes := ps,
                strings := strs, syslogs := ss, waits := ws\<rparr>))"

definition TestConfig ::
  "registry \<Rightarrow> (string \<Rightarrow> string) \<Rightarrow> addr option \<Rightarrow> heap \<Rightarrow> fault + (addr option \<times> heap)" where
  "TestConfig reg Getenv c h =
     (let (d, h) = DefaultConfig h
      in case Merge (Some d) c h of
           Inl e \<Rightarrow> Inl e
         | Inr (d, h) \<Rightarrow> Inr (d, Finalize reg Getenv d h))"

section \<open>What a holder of a Config can read and write\<close>

text \<open>
  \<open>view h c f\<close> is what dereferencing field \<open>f\<close> of the Config \<open>c\<close> reads in the
  heap \<open>h\<close>. \<open>mutate f p v\<close> is an assignment through a pointer \<open>p\<close> held in field
  \<open>f\<close>: it overwrites the object at \<open>p\<close> in the store of that field's type (a value
  of another type cannot be assigned there: the heap stays as it is).
\<close>

datatype observed =
    ONil
  | OEntity entity
  | OCollection "entity list"
  | OString string
  | ODuration int
  | OSignal int

text \<open>What a pointer of the type of field \<open>f\<close> points to.\<close>

fun read_at :: "field_name \<Rightarrow> heap \<Rightarrow> addr option \<Rightarrow> observed" where
  "read_at f h None = ONil"
| "read_at FConsul h (Some p) = OEntity (cell (consuls h) p)"
| "read_at FDestinationConsul h (Some p) = OEntity (cell (consuls h) p)"
| "read_at FExcludes h (Some p) = OCollection (cell (excludes h) p)"
| "read_at FKillSignal h (Some p) = OSignal (cell (signals h) p)"
| "read_at FLogLevel h (Some p) = OString (cell (strings h) p)"
| "read_at FMaxStale h (Some p) = ODuration (cell (durations h) p)"
| "read_at FPidFile h (Some p) = OString (cell (strings h) p)"
| "read_at FPrefixes h (Some p) = OCollection (cell (prefixes h) p)"
| "read_at FReloadSignal h (Some p) = OSignal (cell (signals h) p)"
| "read_at FStatusDir h (Some p) = OString (cell (strings h) p)"
| "read_at FSyslog h (Some p) = OEntity (cell (syslogs h) p)"
| "read_at FWait h (Some p) = OEntity (cell (waits h) p)"

definition view :: "heap \<Rightarrow> Config \<Rightarrow> field_name \<Rightarrow> observed" where
  "view h c f = read_at f h (ptr c f)"

definition mutate :: "field_name \<Rightarrow> addr \<Rightarrow> observed \<Rightarrow> heap \<Rightarrow> heap" where
  "mutate f p v h =
     (case v of
        ONil \<Rightarrow> h
      | OEntity e \<Rightarrow>
          (case f of
             FConsul \<Rightarrow> h\<lparr>consuls := assign p e (consuls h)\<rparr>
           | FDestinationConsul \<Rightarrow> h\<lparr>consuls := assign p e (consuls h)\<rparr>
           | FSyslog \<Rightarrow> h\<lparr>syslogs := assign p e (syslogs h)\<rparr>
           | FWait \<Rightarrow> h\<lparr>waits := assign p e (waits h)\<rparr>
           | _ \<Rightarrow> h)
      | OCollection es \<Rightarrow>
          (case f of
             FExcludes \<Rightarrow> h\<lparr>excludes := assign p es (excludes h)\<rparr>
           | FPrefixes \<Rightarrow> h\<lparr>prefixes := assign p es (prefixes h)\<rparr>
           | _ \<Rightarrow> h)
      | OString s \<Rightarrow>
          (case f of
             FLogLevel \<Rightarrow> h\<lparr>strings := assign p s (strings h)\<rparr>
           | FPidFile \<Rightarrow> h\<lparr>strings := assign p s (strings h)\<rparr>
           | FStatusDir \<Rightarrow> h\<lparr>strings := assign p s (strings h)\<rparr>
           | _ \<Rightarrow> h)
      | ODuration d \<Rightarrow>
          (case f of
             FMaxStale \<Rightarrow> h\<lparr>durations := assign p d (durations h)\<rparr>
           | _ \<Rightarrow> h)
      | OSignal n \<Rightarrow>
          (case f of
             FKillSignal \<Rightarrow> h\<lparr>signals := assign p n (signals h)\<rparr>
           | FReloadSignal \<Rightarrow> h\<lparr>signals := assign p n (signals h)\<rparr>
           | _ \<Rightarrow> h))"

text \<open>
  The fields that hold a stanza and the fields that hold a scalar
  (\<^verbatim>\<open>DestinationConsul\<close> is in neither list).
\<close>

definition stanza_fields :: "field_name list" where
  "stanza_fields = [FConsul, FExcludes, FPrefixes, FSyslog, FWait]"

definition scalar_fields :: "field_name list" where
  "scalar_fields = [FKillSignal, FLogLevel, FMaxStale, FPidFile, FReloadSignal, FStatusDir]"

text \<open>
  A live Config: its own address and the addresses in its fields have been handed out
  by their stores. \<open>limit f h\<close> is the first address that the store of the type of
  field \<open>f\<close> has not handed out.
\<close>

fun limit :: "field_name \<Rightarrow> heap \<Rightarrow> addr" where
  "limit FConsul h = next_addr (consuls h)"
| "limit FDestinationConsul h = next_addr (consuls h)"
| "limit FExcludes h = next_addr (excludes h)"
| "limit FKillSignal h = next_addr (signals h)"
| "limit FLogLevel h = next_addr (strings h)"
| "limit FMaxStale h = next_addr (durations h)"
| "limit FPidFile h = next_addr (strings h)"
| "limit FPrefixes h = next_addr (prefixes h)"
| "limit FReloadSignal h = next_addr (signals h)"
| "limit FStatusDir h = next_addr (strings h)"
| "limit FSyslog h = next_addr (syslogs h)"
| "limit FWait h = next_addr (waits h)"

definition within :: "heap \<Rightarrow> Config \<Rightarrow> bool" where
  "within h c \<longleftrightarrow>
     list_all (\<lambda>f. case ptr c f of None \<Rightarrow> True | Some q \<Rightarrow> q < limit f h) Config_fields"

definition live :: "heap \<Rightarrow> addr \<Rightarrow> bool" where
  "live h p \<longleftrightarrow> p < next_addr (configs h) \<and> within h (obj h p)"

text \<open>
  The heap of a program that has allocated nothing yet, and the heap that holds one
  Config \<open>c\<close>, at address 0, and nothing else.
\<close>

definition empty_heap :: heap where
  "empty_heap =
     \<lparr>configs = \<lparr>cell = (\<lambda>_. Config_zero), next_addr = 0\<rparr>,
      consuls = \<lparr>cell = (\<lambda>_. Map.empty), next_addr = 0\<rparr>,
      excludes = \<lparr>cell = (\<lambda>_. []), next_addr = 0\<rparr>,
      prefixes = \<lparr>cell = (\<lambda>_. []), next_addr = 0\<rparr>,
      syslogs = \<lparr>cell = (\<lambda>_. Map.empty), next_addr = 0\<rparr>,
      waits = \<lparr>cell = (\<lambda>_. Map.empty), next_addr = 0\<rparr>,
      strings = \<lparr>cell = (\<lambda>_. []), next_addr = 0\<rparr>,
      durations = \<lparr>cell = (\<lambda>_. 0), next_addr = 0\<rparr>,
      signals = \<lparr>cell = (\<lambda>_. 0), next_addr = 0\<rparr>\<rparr>"

definition heap_of :: "Config \<Rightarrow> heap" where
  "heap_of c = empty_heap\<lparr>configs := snd (alloc c (configs empty_heap))\<rparr>"

text \<open>
  The right-biased merge of what two fields hold: the right value when it is present,
  with two entities merged field by field.
\<close>

fun merge_observed :: "observed \<Rightarrow> observed \<Rightarrow> observed" where
  "merge_observed a ONil = a"
| "merge_observed (OEntity a) (OEntity b) = OEntity (entity_merge a b)"
| "merge_observed a b = b"

section \<open>Growth of the heap and what a block does\<close>

text \<open>
  A store grows when it hands out new addresses and leaves the objects at the old ones
  as they are; the heap grows when the stores of the stanzas and of the scalars do.
\<close>

definition sgrows :: "'a store \<Rightarrow> 'a store \<Rightarrow> bool" where
  "sgrows s s' \<longleftrightarrow> next_addr s \<le> next_addr s' \<and> (\<forall>p < next_addr s. cell s' p = cell s p)"

definition grows :: "heap \<Rightarrow> heap \<Rightarrow> bool" where
  "grows h h' \<longleftrightarrow>
     sgrows (consuls h) (consuls h') \<and> sgrows (excludes h) (excludes h') \<and>
     sgrows (prefixes h) (prefixes h') \<and> sgrows (syslogs h) (syslogs h') \<and>
     sgrows (waits h) (waits h') \<and> sgrows (strings h) (strings h') \<and>
     sgrows (durations h) (durations h') \<and> sgrows (signals h) (signals h')"

text \<open>
  What one block of \<^verbatim>\<open>Merge\<close> does, for the field \<open>g\<close> it is written for: it only
  allocates, it changes no Config but the copy \<open>r\<close> and there only the field \<open>g\<close>,
  and what \<open>g\<close> then holds is the right-biased merge of what it held in the copy and in
  the argument.
\<close>

definition merges :: "field_name \<Rightarrow> (addr \<Rightarrow> addr \<Rightarrow> heap \<Rightarrow> heap) \<Rightarrow> bool" where
  "merges g B \<longleftrightarrow> (\<forall>r po h. po \<noteq> r \<longrightarrow>
      grows h (B r po h) \<and>
      next_addr (configs (B r po h)) = next_addr (configs h) \<and>
      (\<forall>q. q \<noteq> r \<longrightarrow> obj (B r po h) q = obj h q) \<and>
      (\<forall>f. f \<noteq> g \<longrightarrow> ptr (obj (B r po h) r) f = ptr (obj h r) f) \<and>
      (within h (obj h r) \<longrightarrow> within h (obj h po) \<longrightarrow> within (B r po h) (obj (B r po h) r)) \<and>
      view (B r po h) (obj (B r po h) r) g
        = merge_observed (view h (obj h r) g) (view h (obj h po) g) \<and>
      (g \<in> set scalar_fields \<longrightarrow>
         ptr (obj (B r po h) r) g
           = (if ptr (obj h po) g \<noteq> None then ptr (obj h po) g else ptr (obj h r) g)))"

text \<open>
  What \<^verbatim>\<open>Copy\<close> of the Config at \<open>pc\<close> leaves behind: one new Config, at the
  address the store of Configs hands out next, every older Config as it was, a heap that
  has only grown, no \<^verbatim>\<open>DestinationConsul\<close> in the new Config, the scalar pointers of
  the original, a new object for each stanza of the original, and the same values behind
  every other field.
\<close>

definition copy_of :: "addr \<Rightarrow> heap \<Rightarrow> heap \<Rightarrow> bool" where
  "copy_of pc h h' \<longleftrightarrow>
     next_addr (configs h') = Suc (next_addr (configs h))
     \<and> (\<forall>q. q \<noteq> next_addr (configs h) \<longrightarrow> obj h' q = obj h q)
     \<and> grows h h'
     \<and> ptr (obj h' (next_addr (configs h))) FDestinationConsul = None
     \<and> (\<forall>f \<in> set scalar_fields. ptr (obj h' (next_addr (configs h))) f = ptr (obj h pc) f)
     \<and> (\<forall>f \<in> set stanza_fields.
           ptr (obj h' (next_addr (configs h))) f = map_option (\<lambda>_. limit f h) (ptr (obj h pc) f))
     \<and> (\<forall>f. f \<noteq> FDestinationConsul \<longrightarrow>
           view h' (obj h' (next_addr (configs h))) f = view h (obj h pc) f)
     \<and> (within h (obj h pc) \<longrightarrow> within h' (obj h' (next_addr (configs h))))"

text \<open>
  What one block of \<^verbatim>\<open>Finalize\<close> does, for the field \<open>g\<close> it is written for: after
  it the field is not \<^verbatim>\<open>nil\<close>, no pointer that was set is changed, in any field of any
  Config, and the store of strings has only grown.
\<close>

definition fills :: "field_name \<Rightarrow> (addr \<Rightarrow> heap \<Rightarrow> heap) \<Rightarrow> bool" where
  "fills g B \<longleftrightarrow>
     (\<forall>c h. ptr (obj (B c h) c) g \<noteq> None) \<and>
     (\<forall>c h q f p. ptr (obj h q) f = Some p \<longrightarrow> ptr (obj (B c h) q) f = Some p) \<and>
     (\<forall>c h. sgrows (strings h) (strings (B c h)))"

section \<open>Example heaps\<close>

text \<open>
  A store that holds the objects of a list at the addresses 0, 1, ...; a heap with one
  Config that has a connection stanza and a log level; a heap with two Configs, the
  second with a destination connection and a log level.
\<close>

definition store_of :: "'a \<Rightarrow> 'a list \<Rightarrow> 'a store" where
  "store_of d xs = \<lparr>cell = (\<lambda>p. if p < length xs then xs ! p else d), next_addr = length xs\<rparr>"

definition one_config :: heap where
  "one_config = empty_heap
     \<lparr>configs := store_of Config_zero [Config_zero\<lparr>Consul := Some 0, LogLevel := Some 0\<rparr>],
      consuls := store_of Map.empty [[''address'' \<mapsto> ''127.0.0.1:8500'']],
      strings := store_of [] [''INFO'']\<rparr>"

definition two_configs :: heap where
  "two_configs = empty_heap
     \<lparr>configs := store_of Config_zero
        [Config_zero\<lparr>StatusDir := Some 0\<rparr>,
         Config_zero\<lparr>DestinationConsul := Some 0, LogLevel := Some 1\<rparr>],
      consuls := store_of Map.empty [[''address'' \<mapsto> ''10.0.0.2:8500'']],
      strings := store_of [] [''service/statuses'', ''DEBUG'']\<rparr>"

section \<open>Properties of flattenKeys\<close>

lemma flatten_keys_kept: "map fst (flatten keys parent m) = map fst m"
  by (induction m) auto

lemma flatten_lookup:
  "map_of (flatten keys parent m) k =
     map_option (\<lambda>v. if mapKey parent k \<in> set keys
                       then flatten_value keys (mapKey parent k) v else v) (map_of m k)"
  by (induction m) auto

lemma flatten_value_cases:
  "flatten_value keys mk v =
     (case v of
        GMapList typed \<Rightarrow> if typed \<noteq> [] then GMap (flatten keys mk (last typed)) else GNil
      | GMap typed \<Rightarrow> GMap (flatten keys mk typed)
      | _ \<Rightarrow> v)"
  by (cases v) simp_all

lemma flattenKeys_other:
  "k \<notin> set keys \<Longrightarrow> map_of (flattenKeys m keys) k = map_of m k"
  by (cases "map_of m k") (simp_all add: flattenKeys_def flatten_lookup mapKey_def)

text \<open>
  Claim C6, as amended. For every mapping, every list of key paths and every parent path,
  an entry \<open>k\<close> of the mapping whose dotted path is in the list is rewritten by the type
  of its value: a non-empty sequence of mappings becomes its last element, flattened with
  the dotted path as the parent; an empty sequence of mappings becomes the explicit
  \<^verbatim>\<open>nil\<close>; a mapping stays in place and is itself flattened with the dotted path as
  the parent; every other value is unchanged. An entry whose dotted path is not in the
  list is unchanged, and no key is added or omitted. \<^verbatim>\<open>flattenKeys\<close> starts with the
  empty parent.
\<close>

theorem flattenKeys_entry:
  "map_of m k = Some v \<Longrightarrow>
     map_of (flatten keys parent m) k = Some
       (if mapKey parent k \<in> set keys then
          (case v of
             GMapList typed \<Rightarrow>
               if typed \<noteq> [] then GMap (flatten keys (mapKey parent k) (last typed)) else GNil
           | GMap typed \<Rightarrow> GMap (flatten keys (mapKey parent k) typed)
           | _ \<Rightarrow> v)
        else v)
     \<and> map fst (flatten keys parent m) = map fst m
     \<and> flattenKeys m keys = flatten keys [] m"
  by (simp add: flatten_lookup flatten_keys_kept flattenKeys_def flatten_value_cases)

theorem flattenKeys_entry_witness:
  "map_of [(''consul'', GMapList [[(''address'', GString ''a'')], [(''address'', GString ''b'')]])]
       ''consul''
     = Some (GMapList [[(''address'', GString ''a'')], [(''address'', GString ''b'')]])
   \<and> map_of (flatten stanza_keys []
         [(''consul'', GMapList [[(''address'', GString ''a'')], [(''address'', GString ''b'')]])])
       ''consul''
     = Some (GMap [(''address'', GString ''b'')])"
  using flattenKeys_entry
    [of "[(''consul'', GMapList [[(''address'', GString ''a'')], [(''address'', GString ''b'')]])]"
      "''consul''" "GMapList [[(''address'', GString ''a'')], [(''address'', GString ''b'')]]"
      stanza_keys "[]"]
  by (simp add: stanza_keys_def mapKey_def)

text \<open>
  Claim C6 as stated fails: a value that is not a sequence does not always pass through
  unchanged. Under the key \<^verbatim>\<open>consul\<close> a mapping (not a sequence) that holds a
  repeated \<^verbatim>\<open>auth\<close> block is rewritten: its \<^verbatim>\<open>auth\<close> becomes the block's last
  element.
\<close>

theorem flattenKeys_map_value_counterexample:
  "map_of (flattenKeys
       [(''consul'', GMap [(''auth'', GMapList [[(''username'', GString ''u'')]])])] stanza_keys)
       ''consul''
     = Some (GMap [(''auth'', GMap [(''username'', GString ''u'')])])
   \<and> map_of (flattenKeys
       [(''consul'', GMap [(''auth'', GMapList [[(''username'', GString ''u'')]])])] stanza_keys)
       ''consul''
     \<noteq> map_of [(''consul'', GMap [(''auth'', GMapList [[(''username'', GString ''u'')]])])]
         ''consul''"
  by (simp add: flattenKeys_def stanza_keys_def mapKey_def)

section \<open>Properties of the deprecations\<close>

lemma flattened_retry:
  "map_of (flattenKeys (flattenKeys parsed stanza_keys) deprecated_keys) ''retry''
     = map_of parsed ''retry''"
  by (simp add: flattenKeys_other stanza_keys_def deprecated_keys_def)

lemma consul_stanza_lookup:
  "map_of parsed ''consul'' = Some (GMap consul) \<Longrightarrow> consul_stanza parsed = consul"
  by (simp add: consul_stanza_def)

lemma promote_auth_keeps_retry:
  "map_of (fst st) ''retry'' = Some retry \<and> count_list (snd st) WarnRetry = 0 \<Longrightarrow>
     map_of (fst (promote_auth st)) ''retry'' = Some retry
     \<and> count_list (snd (promote_auth st)) WarnRetry = 0"
  by (cases st)
     (auto simp: promote_auth_def Let_def update_conv' delete_conv' split: option.splits)

lemma drop_path_keeps_retry:
  "map_of (fst st) ''retry'' = Some retry \<and> count_list (snd st) WarnRetry = 0 \<Longrightarrow>
     map_of (fst (drop_path st)) ''retry'' = Some retry
     \<and> count_list (snd (drop_path st)) WarnRetry = 0"
  by (cases st) (auto simp: drop_path_def delete_conv' split: option.splits)

lemma promote_retry_moves:
  "map_of (fst st) ''retry'' = Some retry \<and> count_list (snd st) WarnRetry = 0 \<Longrightarrow>
     map_of (fst (promote_retry st)) ''retry'' = None
     \<and> (\<exists>consul. map_of (fst (promote_retry st)) ''consul'' = Some (GMap consul) \<and>
          map_of consul ''retry'' = Some (GMap [(''backoff'', retry), (''max_backoff'', retry)]))
     \<and> count_list (snd (promote_retry st)) WarnRetry = 1"
  by (cases st)
     (auto simp: promote_retry_def Let_def update_conv' delete_conv' split: option.splits)

lemma promote_ssl_keeps_moved:
  "map_of (fst st) ''retry'' = None
     \<and> (\<exists>consul. map_of (fst st) ''consul'' = Some (GMap consul) \<and>
          map_of consul ''retry'' = Some r)
     \<and> count_list (snd st) WarnRetry = 1 \<Longrightarrow>
   map_of (fst (promote_ssl st)) ''retry'' = None
     \<and> (\<exists>consul. map_of (fst (promote_ssl st)) ''consul'' = Some (GMap consul) \<and>
          map_of consul ''retry'' = Some r)
     \<and> count_list (snd (promote_ssl st)) WarnRetry = 1"
  by (cases st)
     (auto simp: promote_ssl_def Let_def update_conv' delete_conv' consul_stanza_lookup
           split: option.splits)

lemma promote_token_keeps_moved:
  "map_of (fst st) ''retry'' = None
     \<and> (\<exists>consul. map_of (fst st) ''consul'' = Some (GMap consul) \<and>
          map_of consul ''retry'' = Some r)
     \<and> count_list (snd st) WarnRetry = 1 \<Longrightarrow>
   map_of (fst (promote_token st)) ''retry'' = None
     \<and> (\<exists>consul. map_of (fst (promote_token st)) ''consul'' = Some (GMap consul) \<and>
          map_of consul ''retry'' = Some r)
     \<and> count_list (snd (promote_token st)) WarnRetry = 1"
  by (cases st)
     (auto simp: promote_token_def Let_def update_conv' delete_conv' consul_stanza_lookup
           split: option.splits)

text \<open>
  Claim C8. When the decoded mapping has a top-level \<^verbatim>\<open>retry\<close> key, the mapping
  \<^verbatim>\<open>Parse\<close> hands to the binder has no top-level \<^verbatim>\<open>retry\<close> key, its
  \<^verbatim>\<open>consul\<close> entry is a mapping whose \<^verbatim>\<open>retry\<close> entry is the mapping with
  exactly the two fields \<^verbatim>\<open>backoff\<close> and \<^verbatim>\<open>max_backoff\<close>, both equal to the
  legacy value, and the log holds the retry warning exactly once.
\<close>

theorem normalize_retry:
  "map_of parsed ''retry'' = Some retry \<Longrightarrow>
     (case normalize parsed of
        (parsed', log) \<Rightarrow>
          map_of parsed' ''retry'' = None \<and>
          (\<exists>consul. map_of parsed' ''consul'' = Some (GMap consul) \<and>
             map_of consul ''retry''
               = Some (GMap [(''backoff'', retry), (''max_backoff'', retry)])) \<and>
          count_list log WarnRetry = 1)"
proof -
  assume present: "map_of parsed ''retry'' = Some retry"
  let ?flat = "(flattenKeys (flattenKeys parsed stanza_keys) deprecated_keys, [] :: warning list)"
  have "map_of (fst ?flat) ''retry'' = Some retry \<and> count_list (snd ?flat) WarnRetry = 0"
    using present by (simp add: flattened_retry)
  from promote_retry_moves [OF drop_path_keeps_retry [OF promote_auth_keeps_retry [OF this]]]
  have "map_of (fst (normalize parsed)) ''retry'' = None
     \<and> (\<exists>consul. map_of (fst (normalize parsed)) ''consul'' = Some (GMap consul) \<and>
          map_of consul ''retry'' = Some (GMap [(''backoff'', retry), (''max_backoff'', retry)]))
     \<and> count_list (snd (normalize parsed)) WarnRetry = 1"
    unfolding normalize_def
    by (intro promote_token_keeps_moved promote_ssl_keeps_moved)
  then show ?thesis
    by (cases "normalize parsed") simp
qed

theorem normalize_retry_witness:
  "map_of [(''retry'', GString ''10s''), (''consul'', GMapList [[(''address'', GString ''a'')]])]
       ''retry''
     = Some (GString ''10s'')
   \<and> normalize
       [(''retry'', GString ''10s''), (''consul'', GMapList [[(''address'', GString ''a'')]])]
     = ([(''consul'', GMap [(''address'', GString ''a''),
           (''retry'', GMap [(''backoff'', GString ''10s''), (''max_backoff'', GString ''10s'')])])],
        [WarnRetry])"
  using normalize_retry
    [of "[(''retry'', GString ''10s''), (''consul'', GMapList [[(''address'', GString ''a'')]])]"
      "GString ''10s''"]
  by (simp add: normalize_def flattenKeys_def stanza_keys_def deprecated_keys_def mapKey_def
        promote_auth_def drop_path_def promote_retry_def promote_ssl_def promote_token_def
        consul_stanza_def)

section \<open>Properties of the binding\<close>




























section \<open>Properties of the stores\<close>

lemma alloc_simps:
  "fst (alloc v s) = next_addr s"
  "cell (snd (alloc v s)) p = (if p = next_addr s then v else cell s p)"
  "next_addr (snd (alloc v s)) = Suc (next_addr s)"
  by (simp_all add: alloc_def)

lemma assign_simps:
  "cell (assign p v s) q = (if q = p then v else cell s q)"
  "next_addr (assign p v s) = next_addr s"
  by (simp_all add: assign_def)

lemma sgrows_refl: "sgrows s s"
  by (simp add: sgrows_def)

lemma sgrows_trans: "sgrows s s' \<Longrightarrow> sgrows s' s'' \<Longrightarrow> sgrows s s''"
  by (auto simp: sgrows_def)

lemma sgrows_alloc: "sgrows s (snd (alloc v s))"
  by (simp add: sgrows_def alloc_simps)

lemma sgrows_stanza_Copy: "sgrows s (snd (stanza_Copy c s))"
  by (cases c) (simp_all add: stanza_Copy_def split_beta sgrows_alloc sgrows_refl)

lemma sgrows_stanza_Merge: "sgrows s (snd (stanza_Merge mrg c other s))"
  by (cases c; cases other)
     (simp_all add: stanza_Merge_def split_beta sgrows_alloc sgrows_refl sgrows_stanza_Copy)

lemma grows_refl: "grows h h"
  by (simp add: grows_def sgrows_refl)

lemma grows_trans: "grows h h' \<Longrightarrow> grows h' h'' \<Longrightarrow> grows h h''"
  unfolding grows_def by (blast intro: sgrows_trans)

lemma Config_fields_all: "f \<in> set Config_fields"
  by (cases f) (simp_all add: Config_fields_def)

lemma within_iff:
  "within h c \<longleftrightarrow> (\<forall>f q. ptr c f = Some q \<longrightarrow> q < limit f h)"
  by (auto simp: within_def list_all_iff Config_fields_all split: option.splits)

lemma grows_limit: "grows h h' \<Longrightarrow> limit f h \<le> limit f h'"
  by (cases f) (simp_all add: grows_def sgrows_def)

lemma grows_read:
  "grows h h' \<Longrightarrow> p < limit f h \<Longrightarrow> read_at f h' (Some p) = read_at f h (Some p)"
  by (cases f) (simp_all add: grows_def sgrows_def)

lemma grows_within: "grows h h' \<Longrightarrow> within h c \<Longrightarrow> within h' c"
  unfolding within_iff using grows_limit by (meson less_le_trans)

lemma grows_view: "grows h h' \<Longrightarrow> within h c \<Longrightarrow> view h' c f = view h c f"
  by (cases "ptr c f") (simp_all add: view_def within_iff grows_read)

section \<open>Properties of the blocks of Merge\<close>

lemma set_obj_simps:
  "obj (set_obj p c h) q = (if q = p then c else obj h q)"
  "next_addr (configs (set_obj p c h)) = next_addr (configs h)"
  "consuls (set_obj p c h) = consuls h"
  "excludes (set_obj p c h) = excludes h"
  "prefixes (set_obj p c h) = prefixes h"
  "syslogs (set_obj p c h) = syslogs h"
  "waits (set_obj p c h) = waits h"
  "strings (set_obj p c h) = strings h"
  "durations (set_obj p c h) = durations h"
  "signals (set_obj p c h) = signals h"
  by (simp_all add: set_obj_def obj_def assign_simps)

lemma grows_set_obj: "grows h (set_obj p c h)"
  by (simp add: grows_def set_obj_simps sgrows_refl)

lemma view_set_obj: "view (set_obj p c h) c' f = view h c' f"
  by (cases f; cases "ptr c' f") (simp_all add: view_def set_obj_simps)

lemma limit_set_obj: "limit f (set_obj p c h) = limit f h"
  by (cases f) (simp_all add: set_obj_simps)

lemma within_set_obj: "within (set_obj p c h) c' = within h c'"
  by (simp add: within_iff limit_set_obj)

lemma view_present: "ptr c f = Some q \<Longrightarrow> view h c f \<noteq> ONil"
  by (cases f) (simp_all add: view_def)

lemma view_absent: "ptr c f = None \<Longrightarrow> view h c f = ONil"
  by (simp add: view_def)

lemma merge_observed_scalar:
  "f \<in> set scalar_fields \<Longrightarrow> ptr c f = Some q
     \<Longrightarrow> merge_observed a (view h c f) = view h c f"
  by (cases f; cases a) (simp_all add: view_def scalar_fields_def)

lemma merges_scalar:
  assumes B: "\<And>r po h. B r po h =
        (if ptr (obj h po) g \<noteq> None then set_obj r (upd (ptr (obj h po) g) (obj h r)) h else h)"
    and upd: "\<And>v c f. ptr (upd v c) f = (if f = g then v else ptr c f)"
    and g: "g \<in> set scalar_fields"
  shows "merges g B"
  unfolding merges_def
proof (intro allI impI)
  fix r po h
  assume ne: "po \<noteq> (r :: addr)"
  show "grows h (B r po h) \<and>
      next_addr (configs (B r po h)) = next_addr (configs h) \<and>
      (\<forall>q. q \<noteq> r \<longrightarrow> obj (B r po h) q = obj h q) \<and>
      (\<forall>f. f \<noteq> g \<longrightarrow> ptr (obj (B r po h) r) f = ptr (obj h r) f) \<and>
      (within h (obj h r) \<longrightarrow> within h (obj h po) \<longrightarrow> within (B r po h) (obj (B r po h) r)) \<and>
      view (B r po h) (obj (B r po h) r) g
        = merge_observed (view h (obj h r) g) (view h (obj h po) g) \<and>
      (g \<in> set scalar_fields \<longrightarrow>
         ptr (obj (B r po h) r) g
           = (if ptr (obj h po) g \<noteq> None then ptr (obj h po) g else ptr (obj h r) g))"
  proof (cases "ptr (obj h po) g")
    case None
    then have "B r po h = h" by (simp add: B)
    with None show ?thesis by (simp add: grows_refl view_absent)
  next
    case (Some q)
    then have eq: "B r po h = set_obj r (upd (Some q) (obj h r)) h" by (simp add: B)
    have w: "within h (obj h r) \<Longrightarrow> within h (obj h po) \<Longrightarrow> within h (upd (Some q) (obj h r))"
      using Some unfolding within_iff upd by (auto split: if_splits)
    have v: "view h (upd (Some q) (obj h r)) g = view h (obj h po) g"
      using Some by (simp add: view_def upd)
    show ?thesis
      using Some g w
      by (simp add: eq grows_set_obj set_obj_simps upd within_set_obj view_set_obj v
            merge_observed_scalar)
  qed
qed

lemma stanza_Merge_Some:
  "stanza_Merge mrg a (Some q) s =
     (Some (next_addr s),
      snd (alloc (case a of None \<Rightarrow> cell s q | Some p \<Rightarrow> mrg (cell s p) (cell s q)) s))"
  by (cases a) (simp_all add: stanza_Merge_def stanza_Copy_def split_beta alloc_simps)

lemma merges_stanza:
  fixes sel :: "heap \<Rightarrow> 'a store" and put :: "'a store \<Rightarrow> heap \<Rightarrow> heap"
    and wrap :: "'a \<Rightarrow> observed"
  assumes B: "\<And>r po h. B r po h =
        (if ptr (obj h po) g \<noteq> None then
           set_obj r
             (upd (fst (stanza_Merge mrg (ptr (obj h r) g) (ptr (obj h po) g) (sel h))) (obj h r))
             (put (snd (stanza_Merge mrg (ptr (obj h r) g) (ptr (obj h po) g) (sel h))) h)
         else h)"
    and upd: "\<And>v c f. ptr (upd v c) f = (if f = g then v else ptr c f)"
    and obj_put: "\<And>s h q. obj (put s h) q = obj h q"
    and cfg_put: "\<And>s h. next_addr (configs (put s h)) = next_addr (configs h)"
    and grows_put: "\<And>s h. sgrows (sel h) s \<Longrightarrow> grows h (put s h)"
    and limit_put: "\<And>s h. limit g (put s h) = next_addr s"
    and sel_put: "\<And>s h. sel (put s h) = s"
    and read_sel: "\<And>h p. read_at g h (Some p) = wrap (cell (sel h) p)"
    and wrap_mrg: "\<And>x y. merge_observed (wrap x) (wrap y) = wrap (mrg x y)"
    and wrap_nil: "\<And>y. merge_observed ONil (wrap y) = wrap y"
    and g: "g \<notin> set scalar_fields"
  shows "merges g B"
  unfolding merges_def
proof (intro allI impI)
  fix r po h
  assume ne: "po \<noteq> (r :: addr)"
  show "grows h (B r po h) \<and>
      next_addr (configs (B r po h)) = next_addr (configs h) \<and>
      (\<forall>q. q \<noteq> r \<longrightarrow> obj (B r po h) q = obj h q) \<and>
      (\<forall>f. f \<noteq> g \<longrightarrow> ptr (obj (B r po h) r) f = ptr (obj h r) f) \<and>
      (within h (obj h r) \<longrightarrow> within h (obj h po) \<longrightarrow> within (B r po h) (obj (B r po h) r)) \<and>
      view (B r po h) (obj (B r po h) r) g
        = merge_observed (view h (obj h r) g) (view h (obj h po) g) \<and>
      (g \<in> set scalar_fields \<longrightarrow>
         ptr (obj (B r po h) r) g
           = (if ptr (obj h po) g \<noteq> None then ptr (obj h po) g else ptr (obj h r) g))"
  proof (cases "ptr (obj h po) g")
    case None
    then have "B r po h = h" by (simp add: B)
    with None g show ?thesis by (simp add: grows_refl view_absent)
  next
    case (Some q)
    let ?n = "next_addr (sel h)"
    let ?v = "case ptr (obj h r) g of None \<Rightarrow> cell (sel h) q
              | Some p \<Rightarrow> mrg (cell (sel h) p) (cell (sel h) q)"
    let ?s = "snd (alloc ?v (sel h))"
    let ?c = "upd (Some ?n) (obj h r)"
    have eq: "B r po h = set_obj r ?c (put ?s h)"
      using Some by (simp add: B stanza_Merge_Some)
    have gr: "grows h (put ?s h)"
      by (rule grows_put) (rule sgrows_alloc)
    have w: "within (put ?s h) ?c" if "within h (obj h r)"
      unfolding within_iff
    proof (intro allI impI)
      fix f p
      assume p: "ptr ?c f = Some p"
      show "p < limit f (put ?s h)"
      proof (cases "f = g")
        case True
        with p show ?thesis by (simp add: upd limit_put alloc_simps)
      next
        case False
        with p have "ptr (obj h r) f = Some p" by (simp add: upd)
        with that have "p < limit f h" by (simp add: within_iff)
        with grows_limit [OF gr, of f] show ?thesis by simp
      qed
    qed
    have v: "view (put ?s h) ?c g = merge_observed (view h (obj h r) g) (view h (obj h po) g)"
      using Some
      by (cases "ptr (obj h r) g")
         (simp_all add: view_def upd sel_put read_sel alloc_simps wrap_mrg wrap_nil)
    show ?thesis
      using g w v gr
      by (simp add: eq set_obj_simps obj_put cfg_put upd within_set_obj view_set_obj
            grows_trans [OF gr grows_set_obj])
  qed
qed

lemma merges_KillSignal: "merges FKillSignal merge_KillSignal"
proof (rule merges_scalar [where upd = "\<lambda>v c. c\<lparr>KillSignal := v\<rparr>"])
  show "merge_KillSignal r po h =
        (if ptr (obj h po) FKillSignal \<noteq> None
         then set_obj r ((obj h r)\<lparr>KillSignal := ptr (obj h po) FKillSignal\<rparr>) h else h)"
    for r po h
    by (simp add: merge_KillSignal_def)
  show "ptr (c\<lparr>KillSignal := v\<rparr>) f = (if f = FKillSignal then v else ptr c f)" for v c f
    by (cases f) simp_all
  show "FKillSignal \<in> set scalar_fields" by (simp add: scalar_fields_def)
qed

lemma merges_LogLevel: "merges FLogLevel merge_LogLevel"
proof (rule merges_scalar [where upd = "\<lambda>v c. c\<lparr>LogLevel := v\<rparr>"])
  show "merge_LogLevel r po h =
        (if ptr (obj h po) FLogLevel \<noteq> None
         then set_obj r ((obj h r)\<lparr>LogLevel := ptr (obj h po) FLogLevel\<rparr>) h else h)"
    for r po h
    by (simp add: merge_LogLevel_def)
  show "ptr (c\<lparr>LogLevel := v\<rparr>) f = (if f = FLogLevel then v else ptr c f)" for v c f
    by (cases f) simp_all
  show "FLogLevel \<in> set scalar_fields" by (simp add: scalar_fields_def)
qed

lemma merges_MaxStale: "merges FMaxStale merge_MaxStale"
proof (rule merges_scalar [where upd = "\<lambda>v c. c\<lparr>MaxStale := v\<rparr>"])
  show "merge_MaxStale r po h =
        (if ptr (obj h po) FMaxStale \<noteq> None
         then set_obj r ((obj h r)\<lparr>MaxStale := ptr (obj h po) FMaxStale\<rparr>) h else h)"
    for r po h
    by (simp add: merge_MaxStale_def)
  show "ptr (c\<lparr>MaxStale := v\<rparr>) f = (if f = FMaxStale then v else ptr c f)" for v c f
    by (cases f) simp_all
  show "FMaxStale \<in> set scalar_fields" by (simp add: scalar_fields_def)
qed

lemma merges_PidFile: "merges FPidFile merge_PidFile"
proof (rule merges_scalar [where upd = "\<lambda>v c. c\<lparr>PidFile := v\<rparr>"])
  show "merge_PidFile r po h =
        (if ptr (obj h po) FPidFile \<noteq> None
         then set_obj r ((obj h r)\<lparr>PidFile := ptr (obj h po) FPidFile\<rparr>) h else h)"
    for r po h
    by (simp add: merge_PidFile_def)
  show "ptr (c\<lparr>PidFile := v\<rparr>) f = (if f = FPidFile then v else ptr c f)" for v c f
    by (cases f) simp_all
  show "FPidFile \<in> set scalar_fields" by (simp add: scalar_fields_def)
qed

lemma merges_ReloadSignal: "merges FReloadSignal merge_ReloadSignal"
proof (rule merges_scalar [where upd = "\<lambda>v c. c\<lparr>ReloadSignal := v\<rparr>"])
  show "merge_ReloadSignal r po h =
        (if ptr (obj h po) FReloadSignal \<noteq> None
         then set_obj r ((obj h r)\<lparr>ReloadSignal := ptr (obj h po) FReloadSignal\<rparr>) h else h)"
    for r po h
    by (simp add: merge_ReloadSignal_def)
  show "ptr (c\<lparr>ReloadSignal := v\<rparr>) f = (if f = FReloadSignal then v else ptr c f)" for v c f
    by (cases f) simp_all
  show "FReloadSignal \<in> set scalar_fields" by (simp add: scalar_fields_def)
qed

lemma merges_StatusDir: "merges FStatusDir merge_StatusDir"
proof (rule merges_scalar [where upd = "\<lambda>v c. c\<lparr>StatusDir := v\<rparr>"])
  show "merge_StatusDir r po h =
        (if ptr (obj h po) FStatusDir \<noteq> None
         then set_obj r ((obj h r)\<lparr>StatusDir := ptr (obj h po) FStatusDir\<rparr>) h else h)"
    for r po h
    by (simp add: merge_StatusDir_def)
  show "ptr (c\<lparr>StatusDir := v\<rparr>) f = (if f = FStatusDir then v else ptr c f)" for v c f
    by (cases f) simp_all
  show "FStatusDir \<in> set scalar_fields" by (simp add: scalar_fields_def)
qed

lemma merges_Consul: "merges FConsul merge_Consul"
proof (rule merges_stanza [where upd = "\<lambda>v c. c\<lparr>Consul := v\<rparr>" and sel = consuls
      and put = "\<lambda>s h. h\<lparr>consuls := s\<rparr>" and wrap = OEntity and mrg = entity_merge])
  show "merge_Consul r po h =
        (if ptr (obj h po) FConsul \<noteq> None then
           set_obj r
             ((obj h r)\<lparr>Consul := fst (stanza_Merge entity_merge (ptr (obj h r) FConsul)
                 (ptr (obj h po) FConsul) (consuls h))\<rparr>)
             (h\<lparr>consuls := snd (stanza_Merge entity_merge (ptr (obj h r) FConsul)
                 (ptr (obj h po) FConsul) (consuls h))\<rparr>)
         else h)" for r po h
    by (simp add: merge_Consul_def split_beta)
  show "ptr (c\<lparr>Consul := v\<rparr>) f = (if f = FConsul then v else ptr c f)" for v c f
    by (cases f) simp_all
  show "sgrows (consuls h) s \<Longrightarrow> grows h (h\<lparr>consuls := s\<rparr>)" for s h
    by (simp add: grows_def sgrows_refl)
qed (simp_all add: obj_def scalar_fields_def collection_merge_def)

lemma merges_Excludes: "merges FExcludes merge_Excludes"
proof (rule merges_stanza [where upd = "\<lambda>v c. c\<lparr>Excludes := v\<rparr>" and sel = excludes
      and put = "\<lambda>s h. h\<lparr>excludes := s\<rparr>" and wrap = OCollection and mrg = collection_merge])
  show "merge_Excludes r po h =
        (if ptr (obj h po) FExcludes \<noteq> None then
           set_obj r
             ((obj h r)\<lparr>Excludes := fst (stanza_Merge collection_merge (ptr (obj h r) FExcludes)
                 (ptr (obj h po) FExcludes) (excludes h))\<rparr>)
             (h\<lparr>excludes := snd (stanza_Merge collection_merge (ptr (obj h r) FExcludes)
                 (ptr (obj h po) FExcludes) (excludes h))\<rparr>)
         else h)" for r po h
    by (simp add: merge_Excludes_def split_beta)
  show "ptr (c\<lparr>Excludes := v\<rparr>) f = (if f = FExcludes then v else ptr c f)" for v c f
    by (cases f) simp_all
  show "sgrows (excludes h) s \<Longrightarrow> grows h (h\<lparr>excludes := s\<rparr>)" for s h
    by (simp add: grows_def sgrows_refl)
qed (simp_all add: obj_def scalar_fields_def collection_merge_def)

lemma merges_Prefixes: "merges FPrefixes merge_Prefixes"
proof (rule merges_stanza [where upd = "\<lambda>v c. c\<lparr>Prefixes := v\<rparr>" and sel = prefixes
      and put = "\<lambda>s h. h\<lparr>prefixes := s\<rparr>" and wrap = OCollection and mrg = collection_merge])
  show "merge_Prefixes r po h =
        (if ptr (obj h po) FPrefixes \<noteq> None then
           set_obj r
             ((obj h r)\<lparr>Prefixes := fst (stanza_Merge collection_merge (ptr (obj h r) FPrefixes)
                 (ptr (obj h po) FPrefixes) (prefixes h))\<rparr>)
             (h\<lparr>prefixes := snd (stanza_Merge collection_merge (ptr (obj h r) FPrefixes)
                 (ptr (obj h po) FPrefixes) (prefixes h))\<rparr>)
         else h)" for r po h
    by (simp add: merge_Prefixes_def split_beta)
  show "ptr (c\<lparr>Prefixes := v\<rparr>) f = (if f = FPrefixes then v else ptr c f)" for v c f
    by (cases f) simp_all
  show "sgrows (prefixes h) s \<Longrightarrow> grows h (h\<lparr>prefixes := s\<rparr>)" for s h
    by (simp add: grows_def sgrows_refl)
qed (simp_all add: obj_def scalar_fields_def collection_merge_def)

lemma merges_Syslog: "merges FSyslog merge_Syslog"
proof (rule merges_stanza [where upd = "\<lambda>v c. c\<lparr>Syslog := v\<rparr>" and sel = syslogs
      and put = "\<lambda>s h. h\<lparr>syslogs := s\<rparr>" and wrap = OEntity and mrg = entity_merge])
  show "merge_Syslog r po h =
        (if ptr (obj h po) FSyslog \<noteq> None then
           set_obj r
             ((obj h r)\<lparr>Syslog := fst (stanza_Merge entity_merge (ptr (obj h r) FSyslog)
                 (ptr (obj h po) FSyslog) (syslogs h))\<rparr>)
             (h\<lparr>syslogs := snd (stanza_Merge entity_merge (ptr (obj h r) FSyslog)
                 (ptr (obj h po) FSyslog) (syslogs h))\<rparr>)
         else h)" for r po h
    by (simp add: merge_Syslog_def split_beta)
  show "ptr (c\<lparr>Syslog := v\<rparr>) f = (if f = FSyslog then v else ptr c f)" for v c f
    by (cases f) simp_all
  show "sgrows (syslogs h) s \<Longrightarrow> grows h (h\<lparr>syslogs := s\<rparr>)" for s h
    by (simp add: grows_def sgrows_refl)
qed (simp_all add: obj_def scalar_fields_def collection_merge_def)

lemma merges_Wait: "merges FWait merge_Wait"
proof (rule merges_stanza [where upd = "\<lambda>v c. c\<lparr>Wait := v\<rparr>" and sel = waits
      and put = "\<lambda>s h. h\<lparr>waits := s\<rparr>" and wrap = OEntity and mrg = entity_merge])
  show "merge_Wait r po h =
        (if ptr (obj h po) FWait \<noteq> None then
           set_obj r
             ((obj h r)\<lparr>Wait := fst (stanza_Merge entity_merge (ptr (obj h r) FWait)
                 (ptr (obj h po) FWait) (waits h))\<rparr>)
             (h\<lparr>waits := snd (stanza_Merge entity_merge (ptr (obj h r) FWait)
                 (ptr (obj h po) FWait) (waits h))\<rparr>)
         else h)" for r po h
    by (simp add: merge_Wait_def split_beta)
  show "ptr (c\<lparr>Wait := v\<rparr>) f = (if f = FWait then v else ptr c f)" for v c f
    by (cases f) simp_all
  show "sgrows (waits h) s \<Longrightarrow> grows h (h\<lparr>waits := s\<rparr>)" for s h
    by (simp add: grows_def sgrows_refl)
qed (simp_all add: obj_def scalar_fields_def collection_merge_def)

lemma view_cong_ptr: "ptr c' f = ptr c f \<Longrightarrow> view h c' f = view h c f"
  by (simp add: view_def)

lemma fold_merges:
  assumes bs: "\<forall>(g, B) \<in> set bs. merges g B" and d: "distinct (map fst bs)"
    and ne: "po \<noteq> r" and wr: "within h (obj h r)" and wo: "within h (obj h po)"
  shows "grows h (fold (\<lambda>(g, B). B r po) bs h) \<and>
     next_addr (configs (fold (\<lambda>(g, B). B r po) bs h)) = next_addr (configs h) \<and>
     (\<forall>q. q \<noteq> r \<longrightarrow> obj (fold (\<lambda>(g, B). B r po) bs h) q = obj h q) \<and>
     within (fold (\<lambda>(g, B). B r po) bs h) (obj (fold (\<lambda>(g, B). B r po) bs h) r) \<and>
     (\<forall>f. f \<notin> fst ` set bs \<longrightarrow>
        ptr (obj (fold (\<lambda>(g, B). B r po) bs h) r) f = ptr (obj h r) f) \<and>
     (\<forall>f. view (fold (\<lambda>(g, B). B r po) bs h) (obj (fold (\<lambda>(g, B). B r po) bs h) r) f =
        (if f \<in> fst ` set bs then merge_observed (view h (obj h r) f) (view h (obj h po) f)
         else view h (obj h r) f)) \<and>
     (\<forall>f \<in> set scalar_fields.
        ptr (obj (fold (\<lambda>(g, B). B r po) bs h) r) f =
          (if f \<in> fst ` set bs \<and> ptr (obj h po) f \<noteq> None then ptr (obj h po) f
           else ptr (obj h r) f))"
  using bs d wr wo
proof (induction bs arbitrary: h)
  case Nil
  then show ?case by (simp add: grows_refl)
next
  case (Cons b bs)
  obtain g B where b: "b = (g, B)" by (cases b)
  let ?h1 = "B r po h"
  let ?h' = "fold (\<lambda>(g, B). B r po) bs ?h1"
  from Cons.prems b have m: "merges g B" and rest: "\<forall>(g, B) \<in> set bs. merges g B"
    and fresh: "g \<notin> fst ` set bs" and d': "distinct (map fst bs)"
    by auto
  from m ne have g1: "grows h ?h1"
    and c1: "next_addr (configs ?h1) = next_addr (configs h)"
    and o1: "\<And>q. q \<noteq> r \<Longrightarrow> obj ?h1 q = obj h q"
    and p1: "\<And>f. f \<noteq> g \<Longrightarrow> ptr (obj ?h1 r) f = ptr (obj h r) f"
    and w1: "within ?h1 (obj ?h1 r)"
    and v1: "view ?h1 (obj ?h1 r) g = merge_observed (view h (obj h r) g) (view h (obj h po) g)"
    and s1: "g \<in> set scalar_fields \<Longrightarrow> ptr (obj ?h1 r) g
           = (if ptr (obj h po) g \<noteq> None then ptr (obj h po) g else ptr (obj h r) g)"
    using Cons.prems(3,4) unfolding merges_def by blast+
  have po1: "obj ?h1 po = obj h po" using o1 ne by simp
  have wo1: "within ?h1 (obj ?h1 po)"
    using grows_within [OF g1 Cons.prems(4)] po1 by simp
  have vo1: "view ?h1 (obj ?h1 po) f = view h (obj h po) f" for f
    using grows_view [OF g1 Cons.prems(4)] po1 by simp
  have vr1: "view ?h1 (obj ?h1 r) f = view h (obj h r) f" if "f \<noteq> g" for f
  proof -
    have "view ?h1 (obj ?h1 r) f = view ?h1 (obj h r) f"
      by (rule view_cong_ptr) (rule p1 [OF that])
    also have "\<dots> = view h (obj h r) f"
      by (rule grows_view [OF g1 Cons.prems(3)])
    finally show ?thesis .
  qed
  note IH = Cons.IH [OF rest d' w1 wo1]
  have "grows h ?h'" using IH g1 by (blast intro: grows_trans)
  moreover have "next_addr (configs ?h') = next_addr (configs h)" using IH c1 by simp
  moreover have "\<forall>q. q \<noteq> r \<longrightarrow> obj ?h' q = obj h q" using IH o1 by simp
  moreover have "within ?h' (obj ?h' r)" using IH by simp
  moreover have "\<forall>f. f \<notin> fst ` set (b # bs) \<longrightarrow> ptr (obj ?h' r) f = ptr (obj h r) f"
    using IH p1 b by auto
  moreover have "\<forall>f. view ?h' (obj ?h' r) f =
        (if f \<in> fst ` set (b # bs)
         then merge_observed (view h (obj h r) f) (view h (obj h po) f)
         else view h (obj h r) f)"
  proof
    fix f
    from IH have "view ?h' (obj ?h' r) f =
        (if f \<in> fst ` set bs
         then merge_observed (view ?h1 (obj ?h1 r) f) (view ?h1 (obj ?h1 po) f)
         else view ?h1 (obj ?h1 r) f)"
      by blast
    then show "view ?h' (obj ?h' r) f =
        (if f \<in> fst ` set (b # bs)
         then merge_observed (view h (obj h r) f) (view h (obj h po) f)
         else view h (obj h r) f)"
      using fresh v1 vr1 [of f] vo1 [of f] b by (cases "f = g") auto
  qed
  moreover have "\<forall>f \<in> set scalar_fields. ptr (obj ?h' r) f =
          (if f \<in> fst ` set (b # bs) \<and> ptr (obj h po) f \<noteq> None then ptr (obj h po) f
           else ptr (obj h r) f)"
  proof
    fix f
    assume f: "f \<in> set scalar_fields"
    with IH have "ptr (obj ?h' r) f =
          (if f \<in> fst ` set bs \<and> ptr (obj ?h1 po) f \<noteq> None then ptr (obj ?h1 po) f
           else ptr (obj ?h1 r) f)"
      by blast
    then show "ptr (obj ?h' r) f =
          (if f \<in> fst ` set (b # bs) \<and> ptr (obj h po) f \<noteq> None then ptr (obj h po) f
           else ptr (obj h r) f)"
      using fresh s1 p1 [of f] po1 f b by (cases "f = g") auto
  qed
  ultimately show ?case by (simp add: b)
qed

section \<open>Properties of Copy and Merge\<close>

lemma stanza_Copy_guard:
  "(if c \<noteq> None then stanza_Copy c s else (None, s)) = stanza_Copy c s"
  by (simp add: stanza_Copy_def)

lemma stanza_Copy_simps:
  "fst (stanza_Copy c s) = map_option (\<lambda>_. next_addr s) c"
  "next_addr (snd (stanza_Copy c s)) = (if c = None then next_addr s else Suc (next_addr s))"
  "c = Some q \<Longrightarrow> cell (snd (stanza_Copy c s)) (next_addr s) = cell s q"
  by (cases c; simp add: stanza_Copy_def alloc_def)+

lemma Copy_Some:
  "\<exists>h'. Copy (Some pc) h = Inr (next_addr (configs h), h') \<and> copy_of pc h h'"
proof -
  let ?src = "obj h pc"
  let ?out = "Config_zero\<lparr>Consul := fst (stanza_Copy (Consul ?src) (consuls h)),
      Excludes := fst (stanza_Copy (Excludes ?src) (excludes h)),
      KillSignal := KillSignal ?src, LogLevel := LogLevel ?src, MaxStale := MaxStale ?src,
      PidFile := PidFile ?src,
      Prefixes := fst (stanza_Copy (Prefixes ?src) (prefixes h)),
      ReloadSignal := ReloadSignal ?src, StatusDir := StatusDir ?src,
      Syslog := fst (stanza_Copy (Syslog ?src) (syslogs h)),
      Wait := fst (stanza_Copy (Wait ?src) (waits h))\<rparr>"
  let ?h' = "h\<lparr>configs := snd (alloc ?out (configs h)),
      consuls := snd (stanza_Copy (Consul ?src) (consuls h)),
      excludes := snd (stanza_Copy (Excludes ?src) (excludes h)),
      prefixes := snd (stanza_Copy (Prefixes ?src) (prefixes h)),
      syslogs := snd (stanza_Copy (Syslog ?src) (syslogs h)),
      waits := snd (stanza_Copy (Wait ?src) (waits h))\<rparr>"
  let ?po = "next_addr (configs h)"
  have new: "obj ?h' ?po = ?out"
    by (simp add: obj_def alloc_simps)
  have 1: "Copy (Some pc) h = Inr (?po, ?h')"
    unfolding Copy_def Let_def stanza_Copy_guard
    by (simp add: split_beta alloc_simps)
  have 2: "next_addr (configs ?h') = Suc ?po"
    by (simp add: alloc_simps)
  have 3: "obj ?h' q = obj h q" if "q \<noteq> ?po" for q
    using that by (simp add: obj_def alloc_simps)
  have 4: "grows h ?h'"
    by (simp add: grows_def sgrows_refl sgrows_stanza_Copy)
  have 5: "ptr (obj ?h' ?po) FDestinationConsul = None"
    unfolding new by (simp add: Config_zero_def)
  have 6: "ptr (obj ?h' ?po) f = ptr ?src f" if "f \<in> set scalar_fields" for f
    using that unfolding new by (auto simp: scalar_fields_def)
  have 7: "ptr (obj ?h' ?po) f = map_option (\<lambda>_. limit f h) (ptr ?src f)"
    if "f \<in> set stanza_fields" for f
    using that unfolding new by (auto simp: stanza_fields_def stanza_Copy_simps)
  have 8: "view ?h' (obj ?h' ?po) f = view h ?src f" if "f \<noteq> FDestinationConsul" for f
    unfolding new view_def using that
    by (cases f; cases "ptr ?src f") (simp_all add: stanza_Copy_simps)
  have 9: "within ?h' (obj ?h' ?po)" if "within h ?src"
    unfolding new within_iff
  proof (intro allI impI)
    fix f q
    assume q: "ptr ?out f = Some q"
    from that have w: "\<And>f q. ptr ?src f = Some q \<Longrightarrow> q < limit f h"
      by (simp add: within_iff)
    from q w [of f q] grows_limit [OF 4, of f] show "q < limit f ?h'"
      by (cases f) (auto simp: Config_zero_def stanza_Copy_simps split: if_splits)
  qed
  have "copy_of pc h ?h'"
    unfolding copy_of_def
  proof (intro conjI ballI allI impI)
    show "next_addr (configs ?h') = Suc ?po" by (fact 2)
    show "obj ?h' q = obj h q" if "q \<noteq> ?po" for q using that by (rule 3)
    show "grows h ?h'" by (fact 4)
    show "ptr (obj ?h' ?po) FDestinationConsul = None" by (fact 5)
    show "ptr (obj ?h' ?po) f = ptr ?src f" if "f \<in> set scalar_fields" for f
      using that by (rule 6)
    show "ptr (obj ?h' ?po) f = map_option (\<lambda>_. limit f h) (ptr ?src f)"
      if "f \<in> set stanza_fields" for f
      using that by (rule 7)
    show "view ?h' (obj ?h' ?po) f = view h ?src f" if "f \<noteq> FDestinationConsul" for f
      using that by (rule 8)
    show "within ?h' (obj ?h' ?po)" if "within h ?src" using that by (rule 9)
  qed
  with 1 show ?thesis by (intro exI [of _ ?h'] conjI)
qed

lemma merge_DestinationConsul:
  "DestinationConsul (obj (merge_Consul r po h) q) = DestinationConsul (obj h q)"
  "DestinationConsul (obj (merge_Excludes r po h) q) = DestinationConsul (obj h q)"
  "DestinationConsul (obj (merge_KillSignal r po h) q) = DestinationConsul (obj h q)"
  "DestinationConsul (obj (merge_LogLevel r po h) q) = DestinationConsul (obj h q)"
  "DestinationConsul (obj (merge_MaxStale r po h) q) = DestinationConsul (obj h q)"
  "DestinationConsul (obj (merge_PidFile r po h) q) = DestinationConsul (obj h q)"
  "DestinationConsul (obj (merge_Prefixes r po h) q) = DestinationConsul (obj h q)"
  "DestinationConsul (obj (merge_ReloadSignal r po h) q) = DestinationConsul (obj h q)"
  "DestinationConsul (obj (merge_StatusDir r po h) q) = DestinationConsul (obj h q)"
  "DestinationConsul (obj (merge_Syslog r po h) q) = DestinationConsul (obj h q)"
  "DestinationConsul (obj (merge_Wait r po h) q) = DestinationConsul (obj h q)"
  by (simp_all add: merge_Consul_def merge_Excludes_def merge_KillSignal_def merge_LogLevel_def merge_MaxStale_def merge_PidFile_def merge_Prefixes_def merge_ReloadSignal_def merge_StatusDir_def merge_Syslog_def merge_Wait_def
        set_obj_def obj_def assign_simps split_beta)

lemma finalize_DestinationConsul:
  "DestinationConsul (obj (finalize_Consul reg c h) q) = DestinationConsul (obj h q)"
  "DestinationConsul (obj (finalize_Excludes reg c h) q) = DestinationConsul (obj h q)"
  "DestinationConsul (obj (finalize_KillSignal c h) q) = DestinationConsul (obj h q)"
  "DestinationConsul (obj (finalize_LogLevel Getenv c h) q) = DestinationConsul (obj h q)"
  "DestinationConsul (obj (finalize_MaxStale c h) q) = DestinationConsul (obj h q)"
  "DestinationConsul (obj (finalize_PidFile c h) q) = DestinationConsul (obj h q)"
  "DestinationConsul (obj (finalize_Prefixes reg c h) q) = DestinationConsul (obj h q)"
  "DestinationConsul (obj (finalize_ReloadSignal c h) q) = DestinationConsul (obj h q)"
  "DestinationConsul (obj (finalize_StatusDir c h) q) = DestinationConsul (obj h q)"
  "DestinationConsul (obj (finalize_Syslog reg c h) q) = DestinationConsul (obj h q)"
  "DestinationConsul (obj (finalize_Wait reg c h) q) = DestinationConsul (obj h q)"
  by (simp_all add: finalize_Consul_def finalize_Excludes_def finalize_KillSignal_def finalize_LogLevel_def finalize_MaxStale_def finalize_PidFile_def finalize_Prefixes_def finalize_ReloadSignal_def finalize_StatusDir_def finalize_Syslog_def finalize_Wait_def
        set_obj_def obj_def assign_simps Let_def split_beta)

lemma Finalize_DestinationConsul:
  "DestinationConsul (obj (Finalize reg Getenv c h) q) = DestinationConsul (obj h q)"
  by (cases c) (simp_all add: Finalize_def finalize_DestinationConsul)

lemma Merge_DestinationConsul:
  "\<exists>h'. Merge (Some pa) (Some pb) h = Inr (Some (next_addr (configs h)), h')
     \<and> DestinationConsul (obj h' (next_addr (configs h))) = None"
proof -
  from Copy_Some [of pa h] obtain h1
    where c: "Copy (Some pa) h = Inr (next_addr (configs h), h1)"
    and co: "copy_of pa h h1"
    by blast
  from co have d: "ptr (obj h1 (next_addr (configs h))) FDestinationConsul = None"
    by (simp add: copy_of_def)
  show ?thesis
    using d by (simp add: Merge_def c merge_DestinationConsul)
qed

lemma live_within: "live h p \<Longrightarrow> within h (obj h p)"
  by (simp add: live_def)

lemma Merge_Some_Some:
  assumes a: "live h pa" and b: "live h pb"
  shows "\<exists>h'. Merge (Some pa) (Some pb) h = Inr (Some (next_addr (configs h)), h')
     \<and> grows h h'
     \<and> (\<forall>q. q < next_addr (configs h) \<longrightarrow> obj h' q = obj h q)
     \<and> (\<forall>f. f \<noteq> FDestinationConsul \<longrightarrow>
           view h' (obj h' (next_addr (configs h))) f
             = merge_observed (view h (obj h pa) f) (view h (obj h pb) f))
     \<and> (\<forall>f \<in> set scalar_fields.
           ptr (obj h' (next_addr (configs h))) f
             = (if ptr (obj h pb) f \<noteq> None then ptr (obj h pb) f else ptr (obj h pa) f))"
proof -
  let ?r = "next_addr (configs h)"
  let ?bs = "[(FConsul, merge_Consul), (FExcludes, merge_Excludes), (FKillSignal, merge_KillSignal), (FLogLevel, merge_LogLevel), (FMaxStale, merge_MaxStale), (FPidFile, merge_PidFile), (FPrefixes, merge_Prefixes), (FReloadSignal, merge_ReloadSignal), (FStatusDir, merge_StatusDir), (FSyslog, merge_Syslog), (FWait, merge_Wait)]"
  from Copy_Some [of pa h] obtain h1 where c: "Copy (Some pa) h = Inr (?r, h1)"
    and co: "copy_of pa h h1"
    by blast
  from co have o1': "\<forall>q. q \<noteq> ?r \<longrightarrow> obj h1 q = obj h q"
    and g1: "grows h h1"
    and s1': "\<forall>f \<in> set scalar_fields. ptr (obj h1 ?r) f = ptr (obj h pa) f"
    and v1': "\<forall>f. f \<noteq> FDestinationConsul \<longrightarrow> view h1 (obj h1 ?r) f = view h (obj h pa) f"
    and w1': "within h (obj h pa) \<longrightarrow> within h1 (obj h1 ?r)"
    unfolding copy_of_def by blast+
  have o1: "obj h1 q = obj h q" if "q \<noteq> ?r" for q using o1' that by simp
  have s1: "ptr (obj h1 ?r) f = ptr (obj h pa) f" if "f \<in> set scalar_fields" for f
    using s1' that by simp
  have v1: "view h1 (obj h1 ?r) f = view h (obj h pa) f" if "f \<noteq> FDestinationConsul" for f
    using v1' that by simp
  have w1: "within h1 (obj h1 ?r)" if "within h (obj h pa)" using w1' that by simp
  from b have ne: "pb \<noteq> ?r" by (simp add: live_def)
  then have ob: "obj h1 pb = obj h pb" by (rule o1)
  have wb: "within h1 (obj h1 pb)"
    using grows_within [OF g1 live_within [OF b]] ob by simp
  have vb: "view h1 (obj h1 pb) f = view h (obj h pb) f" for f
    using grows_view [OF g1 live_within [OF b]] ob by simp
  have wr: "within h1 (obj h1 ?r)" using a by (intro w1 live_within)
  define h' where "h' = fold (\<lambda>(g, B). B ?r pb) ?bs h1"
  have bs: "\<forall>(g, B) \<in> set ?bs. merges g B"
    by (simp add: merges_Consul merges_Excludes merges_KillSignal merges_LogLevel
          merges_MaxStale merges_PidFile merges_Prefixes merges_ReloadSignal
          merges_StatusDir merges_Syslog merges_Wait)
  have d: "distinct (map fst ?bs)" by simp
  have all: "f \<in> fst ` set ?bs \<longleftrightarrow> f \<noteq> FDestinationConsul" for f
    by (cases f) simp_all
  note F = fold_merges [OF bs d ne wr wb, folded h'_def]
  have m: "Merge (Some pa) (Some pb) h = Inr (Some ?r, h')"
    by (simp add: Merge_def c h'_def)
  moreover have "grows h h'" using F g1 by (blast intro: grows_trans)
  moreover have "\<forall>q. q < ?r \<longrightarrow> obj h' q = obj h q"
    using F o1 by (metis less_irrefl)
  moreover have "\<forall>f. f \<noteq> FDestinationConsul \<longrightarrow>
      view h' (obj h' ?r) f = merge_observed (view h (obj h pa) f) (view h (obj h pb) f)"
  proof (intro allI impI)
    fix f assume f: "f \<noteq> FDestinationConsul"
    from F have "view h' (obj h' ?r) f =
        (if f \<in> fst ` set ?bs
         then merge_observed (view h1 (obj h1 ?r) f) (view h1 (obj h1 pb) f)
         else view h1 (obj h1 ?r) f)"
      by blast
    with f all [of f] v1 [OF f] vb [of f]
    show "view h' (obj h' ?r) f = merge_observed (view h (obj h pa) f) (view h (obj h pb) f)"
      by simp
  qed
  moreover have "\<forall>f \<in> set scalar_fields. ptr (obj h' ?r) f
      = (if ptr (obj h pb) f \<noteq> None then ptr (obj h pb) f else ptr (obj h pa) f)"
  proof
    fix f assume f: "f \<in> set scalar_fields"
    then have nd: "f \<noteq> FDestinationConsul" by (auto simp: scalar_fields_def)
    from F f have "ptr (obj h' ?r) f =
        (if f \<in> fst ` set ?bs \<and> ptr (obj h1 pb) f \<noteq> None then ptr (obj h1 pb) f
         else ptr (obj h1 ?r) f)"
      by blast
    with nd all [of f] s1 [OF f] ob
    show "ptr (obj h' ?r) f
      = (if ptr (obj h pb) f \<noteq> None then ptr (obj h pb) f else ptr (obj h pa) f)"
      by simp
  qed
  ultimately show ?thesis by blast
qed

section \<open>Copy and Merge: the claims\<close>

lemma mutate_obj: "obj (mutate f q v h) p = obj h p"
  by (cases v; cases f) (simp_all add: mutate_def obj_def)

lemma mutate_read:
  "p < limit g h0 \<Longrightarrow> limit f h0 \<le> q
     \<Longrightarrow> read_at g (mutate f q v h) (Some p) = read_at g h (Some p)"
  by (cases v; cases f; cases g) (simp_all add: mutate_def assign_simps)

lemma mutate_view:
  "within h0 c \<Longrightarrow> limit f h0 \<le> q \<Longrightarrow> view (mutate f q v h) c g = view h c g"
proof (cases "ptr c g")
  case None
  then show ?thesis by (simp add: view_def)
next
  case (Some p)
  assume "within h0 c" and q: "limit f h0 \<le> q"
  with Some have "p < limit g h0" by (simp add: within_iff)
  from mutate_read [OF this q] Some show ?thesis by (simp add: view_def)
qed

text \<open>
  Claim C5. The claim is that \<^verbatim>\<open>Copy\<close> on a \<^verbatim>\<open>nil\<close> receiver returns
  \<^verbatim>\<open>nil\<close>. The code reads \<^verbatim>\<open>c.Consul\<close> first and has no \<^verbatim>\<open>nil\<close> check:
  on a \<^verbatim>\<open>nil\<close> receiver it panics, in every heap.
\<close>

theorem Copy_nil_receiver: "Copy None h = Inl NilDereference"
  by (simp add: Copy_def)

text \<open>
  Claim C2, as amended. For a live Config, \<^verbatim>\<open>Copy\<close> returns a new Config and leaves
  the original as it is. Every field but \<^verbatim>\<open>DestinationConsul\<close> reads the same value
  through the copy as through the original. The five stanzas of the copy are new
  objects: an assignment through a stanza pointer of the copy changes nothing that the
  original reads, in any field. The six scalar fields of the copy hold the very pointers
  of the original.
\<close>

theorem Copy_shares_scalars:
  "live h pc \<Longrightarrow>
     (case Copy (Some pc) h of
        Inl e \<Rightarrow> False
      | Inr (po, h') \<Rightarrow>
          po \<noteq> pc \<and> obj h' pc = obj h pc \<and>
          (\<forall>f. f \<noteq> FDestinationConsul \<longrightarrow> view h' (obj h' po) f = view h (obj h pc) f) \<and>
          (\<forall>f \<in> set stanza_fields. \<forall>q v. ptr (obj h' po) f = Some q \<longrightarrow>
             ptr (obj h pc) f \<noteq> Some q \<and>
             (\<forall>g. view (mutate f q v h') (obj (mutate f q v h') pc) g = view h (obj h pc) g)) \<and>
          (\<forall>f \<in> set scalar_fields. ptr (obj h' po) f = ptr (obj h pc) f))"
proof -
  assume l: "live h pc"
  let ?po = "next_addr (configs h)"
  from Copy_Some [of pc h] obtain h' where c: "Copy (Some pc) h = Inr (?po, h')"
    and co: "copy_of pc h h'"
    by blast
  from l have ne: "pc \<noteq> ?po" and w: "within h (obj h pc)" by (simp_all add: live_def)
  from co ne have o: "obj h' pc = obj h pc" by (simp add: copy_of_def)
  from co have g: "grows h h'" by (simp add: copy_of_def)
  from co have v: "\<forall>f. f \<noteq> FDestinationConsul \<longrightarrow> view h' (obj h' ?po) f = view h (obj h pc) f"
    by (simp add: copy_of_def)
  from co have s: "\<forall>f \<in> set scalar_fields. ptr (obj h' ?po) f = ptr (obj h pc) f"
    by (simp add: copy_of_def)
  from co have t: "\<forall>f \<in> set stanza_fields.
      ptr (obj h' ?po) f = map_option (\<lambda>_. limit f h) (ptr (obj h pc) f)"
    by (simp add: copy_of_def)
  have m: "\<forall>f \<in> set stanza_fields. \<forall>q v. ptr (obj h' ?po) f = Some q \<longrightarrow>
      ptr (obj h pc) f \<noteq> Some q \<and>
      (\<forall>g. view (mutate f q v h') (obj (mutate f q v h') pc) g = view h (obj h pc) g)"
  proof (intro ballI allI impI)
    fix f q v
    assume f: "f \<in> set stanza_fields" and q: "ptr (obj h' ?po) f = Some q"
    from t f q have ql: "q = limit f h" by auto
    have "ptr (obj h pc) f \<noteq> Some q"
      using w ql by (auto simp: within_iff)
    moreover have "view (mutate f q v h') (obj (mutate f q v h') pc) g = view h (obj h pc) g" for g
    proof -
      have "view (mutate f q v h') (obj (mutate f q v h') pc) g = view (mutate f q v h') (obj h pc) g"
        by (simp add: mutate_obj o)
      also have "\<dots> = view h' (obj h pc) g"
        using w ql by (intro mutate_view [of h]) simp_all
      also have "\<dots> = view h (obj h pc) g"
        by (rule grows_view [OF g w])
      finally show ?thesis .
    qed
    ultimately show "ptr (obj h pc) f \<noteq> Some q \<and>
      (\<forall>g. view (mutate f q v h') (obj (mutate f q v h') pc) g = view h (obj h pc) g)"
      by blast
  qed
  from ne o v m s show ?thesis
    by (simp add: c)
qed

lemmas eval_heap = obj_def empty_heap_def store_of_def stanza_Copy_def stanza_Merge_def
  alloc_def assign_def set_obj_def Config_zero_def Let_def

lemma one_config_live: "live one_config 0"
  by (simp add: live_def within_def Config_fields_def one_config_def eval_heap)

lemma Copy_one_config:
  "Copy (Some 0) one_config =
     Inr (1, one_config
       \<lparr>configs := snd (alloc (Config_zero\<lparr>Consul := Some 1, LogLevel := Some 0\<rparr>)
            (configs one_config)),
        consuls := snd (alloc [''address'' \<mapsto> ''127.0.0.1:8500''] (consuls one_config))\<rparr>)"
  by (simp add: Copy_def one_config_def eval_heap)

theorem Copy_shares_scalars_witness:
  "live one_config 0 \<and>
   (case Copy (Some 0) one_config of
      Inl e \<Rightarrow> False
    | Inr (po, h') \<Rightarrow>
        po = 1 \<and> Consul (obj h' po) = Some 1 \<and> Consul (obj one_config 0) = Some 0
        \<and> LogLevel (obj h' po) = Some 0
        \<and> view h' (obj h' po) FConsul = view one_config (obj one_config 0) FConsul)"
  using Copy_shares_scalars [of one_config 0] one_config_live
  by (simp add: Copy_one_config) (simp add: one_config_def eval_heap)

text \<open>
  Claim C2 as stated fails for the scalar pointer fields: after \<^verbatim>\<open>Copy\<close>, an
  assignment through the copy's \<^verbatim>\<open>LogLevel\<close> pointer changes the log level the
  original reads, here from INFO to DEBUG.
\<close>

theorem Copy_scalar_counterexample:
  "(case Copy (Some 0) one_config of
      Inl e \<Rightarrow> False
    | Inr (po, h') \<Rightarrow>
        (case LogLevel (obj h' po) of
           None \<Rightarrow> False
         | Some q \<Rightarrow>
             view one_config (obj one_config 0) FLogLevel = OString ''INFO'' \<and>
             view (mutate FLogLevel q (OString ''DEBUG'') h')
               (obj (mutate FLogLevel q (OString ''DEBUG'') h') 0) FLogLevel
               = OString ''DEBUG''))"
  by (simp add: Copy_one_config) (simp add: one_config_def eval_heap view_def mutate_def)

text \<open>
  Claim C4, as amended. \<^verbatim>\<open>Merge\<close> of \<^verbatim>\<open>nil\<close> with \<^verbatim>\<open>nil\<close> returns
  \<^verbatim>\<open>nil\<close> and leaves the heap as it is. With one side \<^verbatim>\<open>nil\<close> it returns
  \<^verbatim>\<open>Copy\<close> of the other side: for a live argument a new Config, not the argument's
  address, the argument unchanged. With two live Configs it returns a new Config, at the
  address of neither; the receiver is not mutated (its object and everything it reads are
  as before); every field of the result but \<^verbatim>\<open>DestinationConsul\<close> reads the
  right-biased merge of what the receiver and the argument read, which is the receiver's
  value when the argument's field is \<^verbatim>\<open>nil\<close>; and each scalar field of the result
  holds the argument's pointer when that is present and else the receiver's pointer: the
  result is \<^verbatim>\<open>Copy\<close> of the receiver, scalars shared, with the fields present in the
  argument overwritten.
\<close>

theorem Merge_contract:
  "Merge None None h = Inr (None, h)
   \<and> Merge None (Some pb) h
       = (case Copy (Some pb) h of Inl e \<Rightarrow> Inl e | Inr (p, h') \<Rightarrow> Inr (Some p, h'))
   \<and> Merge (Some pa) None h
       = (case Copy (Some pa) h of Inl e \<Rightarrow> Inl e | Inr (p, h') \<Rightarrow> Inr (Some p, h'))
   \<and> (live h pb \<longrightarrow>
        (\<exists>p h'. Merge None (Some pb) h = Inr (Some p, h') \<and> p \<noteq> pb \<and> obj h' pb = obj h pb))
   \<and> (live h pa \<longrightarrow> live h pb \<longrightarrow>
        (\<exists>r h'. Merge (Some pa) (Some pb) h = Inr (Some r, h')
           \<and> r \<noteq> pa \<and> r \<noteq> pb
           \<and> obj h' pa = obj h pa
           \<and> (\<forall>f. view h' (obj h' pa) f = view h (obj h pa) f)
           \<and> (\<forall>f. f \<noteq> FDestinationConsul \<longrightarrow>
                 view h' (obj h' r) f
                   = merge_observed (view h (obj h pa) f) (view h (obj h pb) f))
           \<and> (\<forall>f \<in> set scalar_fields.
                 ptr (obj h' r) f
                   = (if ptr (obj h pb) f \<noteq> None then ptr (obj h pb) f
                      else ptr (obj h pa) f))))"
proof (intro conjI impI)
  show "Merge None None h = Inr (None, h)"
    by (simp add: Merge_def)
  show "Merge None (Some pb) h
       = (case Copy (Some pb) h of Inl e \<Rightarrow> Inl e | Inr (p, h') \<Rightarrow> Inr (Some p, h'))"
    by (simp add: Merge_def)
  show "Merge (Some pa) None h
       = (case Copy (Some pa) h of Inl e \<Rightarrow> Inl e | Inr (p, h') \<Rightarrow> Inr (Some p, h'))"
    by (simp add: Merge_def)
next
  assume b: "live h pb"
  from Copy_Some [of pb h] obtain h' where c: "Copy (Some pb) h = Inr (next_addr (configs h), h')"
    and co: "copy_of pb h h'"
    by blast
  from b have ne: "pb \<noteq> next_addr (configs h)" by (simp add: live_def)
  with co have "obj h' pb = obj h pb" by (simp add: copy_of_def)
  with ne c show "\<exists>p h'. Merge None (Some pb) h = Inr (Some p, h') \<and> p \<noteq> pb \<and> obj h' pb = obj h pb"
    by (auto simp: Merge_def)
next
  assume a: "live h pa" and b: "live h pb"
  let ?r = "next_addr (configs h)"
  from Merge_Some_Some [OF a b] obtain h' where m: "Merge (Some pa) (Some pb) h = Inr (Some ?r, h')"
    and g: "grows h h'"
    and o: "\<forall>q. q < ?r \<longrightarrow> obj h' q = obj h q"
    and v: "\<forall>f. f \<noteq> FDestinationConsul \<longrightarrow>
           view h' (obj h' ?r) f = merge_observed (view h (obj h pa) f) (view h (obj h pb) f)"
    and s: "\<forall>f \<in> set scalar_fields.
           ptr (obj h' ?r) f = (if ptr (obj h pb) f \<noteq> None then ptr (obj h pb) f else ptr (obj h pa) f)"
    by blast
  from a b have lt: "pa < ?r" "pb < ?r" by (simp_all add: live_def)
  with o have oa: "obj h' pa = obj h pa" by simp
  have va: "view h' (obj h' pa) f = view h (obj h pa) f" for f
    using grows_view [OF g live_within [OF a]] oa by simp
  from m lt oa va v s
  show "\<exists>r h'. Merge (Some pa) (Some pb) h = Inr (Some r, h')
           \<and> r \<noteq> pa \<and> r \<noteq> pb
           \<and> obj h' pa = obj h pa
           \<and> (\<forall>f. view h' (obj h' pa) f = view h (obj h pa) f)
           \<and> (\<forall>f. f \<noteq> FDestinationConsul \<longrightarrow>
                 view h' (obj h' r) f
                   = merge_observed (view h (obj h pa) f) (view h (obj h pb) f))
           \<and> (\<forall>f \<in> set scalar_fields.
                 ptr (obj h' r) f
                   = (if ptr (obj h pb) f \<noteq> None then ptr (obj h pb) f
                      else ptr (obj h pa) f))"
    by (intro exI [of _ ?r] exI [of _ h']) simp
qed

lemma two_configs_live: "live two_configs 0" "live two_configs 1"
  by (simp_all add: live_def within_def Config_fields_def two_configs_def eval_heap)

theorem Merge_contract_witness:
  "live two_configs 0 \<and> live two_configs 1 \<and>
   (\<exists>r h'. Merge (Some 0) (Some 1) two_configs = Inr (Some r, h')
      \<and> r \<noteq> 0 \<and> r \<noteq> 1
      \<and> LogLevel (obj h' r) = Some 1 \<and> StatusDir (obj h' r) = Some 0
      \<and> view h' (obj h' r) FLogLevel = OString ''DEBUG''
      \<and> view h' (obj h' r) FStatusDir = OString ''service/statuses'')"
proof -
  from Merge_contract [of two_configs 1 0] two_configs_live
  obtain r h' where m: "Merge (Some 0) (Some 1) two_configs = Inr (Some r, h')"
    and ne: "r \<noteq> 0" "r \<noteq> 1"
    and v: "\<forall>f. f \<noteq> FDestinationConsul \<longrightarrow>
          view h' (obj h' r) f
            = merge_observed (view two_configs (obj two_configs 0) f)
                (view two_configs (obj two_configs 1) f)"
    and s: "\<forall>f \<in> set scalar_fields.
          ptr (obj h' r) f
            = (if ptr (obj two_configs 1) f \<noteq> None then ptr (obj two_configs 1) f
               else ptr (obj two_configs 0) f)"
    by blast
  have "ptr (obj h' r) FLogLevel = Some 1"
    using s [rule_format, of FLogLevel]
    by (simp add: scalar_fields_def two_configs_def eval_heap)
  moreover have "ptr (obj h' r) FStatusDir = Some 0"
    using s [rule_format, of FStatusDir]
    by (simp add: scalar_fields_def two_configs_def eval_heap)
  moreover have "view h' (obj h' r) FLogLevel = OString ''DEBUG''"
    using v [rule_format, of FLogLevel]
    by (simp add: view_def two_configs_def eval_heap)
  moreover have "view h' (obj h' r) FStatusDir = OString ''service/statuses''"
    using v [rule_format, of FStatusDir]
    by (simp add: view_def two_configs_def eval_heap)
  ultimately show ?thesis
    using m ne two_configs_live by simp
qed

text \<open>
  Claim C4 as stated fails: what \<^verbatim>\<open>Merge\<close> returns for a non-nil receiver is not a
  deep copy of it. The result's \<^verbatim>\<open>LogLevel\<close> is the receiver's pointer, and an
  assignment through it changes the log level the receiver reads.
\<close>

theorem Merge_scalar_counterexample:
  "(case Merge (Some 0) None one_config of
      Inl e \<Rightarrow> False
    | Inr (res, h') \<Rightarrow>
        (case res of
           None \<Rightarrow> False
         | Some r \<Rightarrow>
             LogLevel (obj h' r) = Some 0 \<and> LogLevel (obj one_config 0) = Some 0 \<and>
             view one_config (obj one_config 0) FLogLevel = OString ''INFO'' \<and>
             view (mutate FLogLevel 0 (OString ''ERR'') h')
               (obj (mutate FLogLevel 0 (OString ''ERR'') h') 0) FLogLevel
               = OString ''ERR''))"
  by (simp add: Merge_def Copy_one_config) (simp add: one_config_def eval_heap view_def mutate_def)


text \<open>
  Claim C3. The claim is that for every field present in \<^verbatim>\<open>b\<close> the result of
  \<^verbatim>\<open>a.Merge(b)\<close> holds the value of \<^verbatim>\<open>b\<close>. For \<^verbatim>\<open>DestinationConsul\<close> the
  code does not: with an \<^verbatim>\<open>a\<close> that has only a status directory and a \<^verbatim>\<open>b\<close>
  whose \<^verbatim>\<open>DestinationConsul\<close> and log level are present, the result's
  \<^verbatim>\<open>DestinationConsul\<close> is \<^verbatim>\<open>nil\<close>.
\<close>

theorem Merge_drops_DestinationConsul:
  "DestinationConsul (obj two_configs 1) = Some 0 \<and>
   (case Merge (Some 0) (Some 1) two_configs of
      Inl e \<Rightarrow> False
    | Inr (res, h') \<Rightarrow>
        (case res of None \<Rightarrow> False | Some r \<Rightarrow> DestinationConsul (obj h' r) = None))"
  using Merge_DestinationConsul [of 0 1 two_configs]
  by (auto simp: two_configs_def eval_heap)

section \<open>Properties of the blocks of Finalize\<close>

lemmas finalize_unfold = set_obj_def obj_def assign_simps alloc_simps Let_def split_beta
  Default_entity_def Default_collection_def stanza_Finalize_def

lemma stringFromEnv_alloc:
  "stringFromEnv Getenv [''CR_LOG'', ''CONSUL_REPLICATE_LOG''] DefaultLogLevel strs =
     alloc (if Getenv ''CR_LOG'' \<noteq> [] then TrimSpace (Getenv ''CR_LOG'')
            else if Getenv ''CONSUL_REPLICATE_LOG'' \<noteq> []
                 then TrimSpace (Getenv ''CONSUL_REPLICATE_LOG'')
                 else ''WARN'') strs"
  by (simp add: Let_def DefaultLogLevel_def)


lemma fills_Consul: "fills FConsul (finalize_Consul reg)"
  unfolding fills_def
proof (intro conjI allI impI)
  fix c h
  show "ptr (obj (finalize_Consul reg c h) c) FConsul \<noteq> None"
    by (simp add: finalize_Consul_def finalize_unfold stringFromEnv_alloc)
  show "sgrows (strings h) (strings (finalize_Consul reg c h))"
    by (simp add: finalize_Consul_def finalize_unfold stringFromEnv_alloc sgrows_refl sgrows_alloc)
next
  fix c h q f p
  assume "ptr (obj h q) f = Some p"
  then show "ptr (obj (finalize_Consul reg c h) q) f = Some p"
    by (cases f) (auto simp: finalize_Consul_def finalize_unfold stringFromEnv_alloc)
qed

lemma fills_Excludes: "fills FExcludes (finalize_Excludes reg)"
  unfolding fills_def
proof (intro conjI allI impI)
  fix c h
  show "ptr (obj (finalize_Excludes reg c h) c) FExcludes \<noteq> None"
    by (simp add: finalize_Excludes_def finalize_unfold stringFromEnv_alloc)
  show "sgrows (strings h) (strings (finalize_Excludes reg c h))"
    by (simp add: finalize_Excludes_def finalize_unfold stringFromEnv_alloc sgrows_refl sgrows_alloc)
next
  fix c h q f p
  assume "ptr (obj h q) f = Some p"
  then show "ptr (obj (finalize_Excludes reg c h) q) f = Some p"
    by (cases f) (auto simp: finalize_Excludes_def finalize_unfold stringFromEnv_alloc)
qed

lemma fills_KillSignal: "fills FKillSignal (finalize_KillSignal)"
  unfolding fills_def
proof (intro conjI allI impI)
  fix c h
  show "ptr (obj (finalize_KillSignal c h) c) FKillSignal \<noteq> None"
    by (simp add: finalize_KillSignal_def finalize_unfold stringFromEnv_alloc)
  show "sgrows (strings h) (strings (finalize_KillSignal c h))"
    by (simp add: finalize_KillSignal_def finalize_unfold stringFromEnv_alloc sgrows_refl sgrows_alloc)
next
  fix c h q f p
  assume "ptr (obj h q) f = Some p"
  then show "ptr (obj (finalize_KillSignal c h) q) f = Some p"
    by (cases f) (auto simp: finalize_KillSignal_def finalize_unfold stringFromEnv_alloc)
qed

lemma fills_LogLevel: "fills FLogLevel (finalize_LogLevel Getenv)"
  unfolding fills_def
proof (intro conjI allI impI)
  fix c h
  show "ptr (obj (finalize_LogLevel Getenv c h) c) FLogLevel \<noteq> None"
    by (simp add: finalize_LogLevel_def finalize_unfold DefaultLogLevel_def)
  show "sgrows (strings h) (strings (finalize_LogLevel Getenv c h))"
    by (simp add: finalize_LogLevel_def finalize_unfold stringFromEnv_alloc sgrows_refl sgrows_alloc)
next
  fix c h q f p
  assume "ptr (obj h q) f = Some p"
  then show "ptr (obj (finalize_LogLevel Getenv c h) q) f = Some p"
    by (cases f) (auto simp: finalize_LogLevel_def finalize_unfold stringFromEnv_alloc)
qed

lemma fills_MaxStale: "fills FMaxStale (finalize_MaxStale)"
  unfolding fills_def
proof (intro conjI allI impI)
  fix c h
  show "ptr (obj (finalize_MaxStale c h) c) FMaxStale \<noteq> None"
    by (simp add: finalize_MaxStale_def finalize_unfold stringFromEnv_alloc)
  show "sgrows (strings h) (strings (finalize_MaxStale c h))"
    by (simp add: finalize_MaxStale_def finalize_unfold stringFromEnv_alloc sgrows_refl sgrows_alloc)
next
  fix c h q f p
  assume "ptr (obj h q) f = Some p"
  then show "ptr (obj (finalize_MaxStale c h) q) f = Some p"
    by (cases f) (auto simp: finalize_MaxStale_def finalize_unfold stringFromEnv_alloc)
qed

lemma fills_Prefixes: "fills FPrefixes (finalize_Prefixes reg)"
  unfolding fills_def
proof (intro conjI allI impI)
  fix c h
  show "ptr (obj (finalize_Prefixes reg c h) c) FPrefixes \<noteq> None"
    by (simp add: finalize_Prefixes_def finalize_unfold stringFromEnv_alloc)
  show "sgrows (strings h) (strings (finalize_Prefixes reg c h))"
    by (simp add: finalize_Prefixes_def finalize_unfold stringFromEnv_alloc sgrows_refl sgrows_alloc)
next
  fix c h q f p
  assume "ptr (obj h q) f = Some p"
  then show "ptr (obj (finalize_Prefixes reg c h) q) f = Some p"
    by (cases f) (auto simp: finalize_Prefixes_def finalize_unfold stringFromEnv_alloc)
qed

lemma fills_PidFile: "fills FPidFile (finalize_PidFile)"
  unfolding fills_def
proof (intro conjI allI impI)
  fix c h
  show "ptr (obj (finalize_PidFile c h) c) FPidFile \<noteq> None"
    by (simp add: finalize_PidFile_def finalize_unfold stringFromEnv_alloc)
  show "sgrows (strings h) (strings (finalize_PidFile c h))"
    by (simp add: finalize_PidFile_def finalize_unfold stringFromEnv_alloc sgrows_refl sgrows_alloc)
next
  fix c h q f p
  assume "ptr (obj h q) f = Some p"
  then show "ptr (obj (finalize_PidFile c h) q) f = Some p"
    by (cases f) (auto simp: finalize_PidFile_def finalize_unfold stringFromEnv_alloc)
qed

lemma fills_ReloadSignal: "fills FReloadSignal (finalize_ReloadSignal)"
  unfolding fills_def
proof (intro conjI allI impI)
  fix c h
  show "ptr (obj (finalize_ReloadSignal c h) c) FReloadSignal \<noteq> None"
    by (simp add: finalize_ReloadSignal_def finalize_unfold stringFromEnv_alloc)
  show "sgrows (strings h) (strings (finalize_ReloadSignal c h))"
    by (simp add: finalize_ReloadSignal_def finalize_unfold stringFromEnv_alloc sgrows_refl sgrows_alloc)
next
  fix c h q f p
  assume "ptr (obj h q) f = Some p"
  then show "ptr (obj (finalize_ReloadSignal c h) q) f = Some p"
    by (cases f) (auto simp: finalize_ReloadSignal_def finalize_unfold stringFromEnv_alloc)
qed

lemma fills_StatusDir: "fills FStatusDir (finalize_StatusDir)"
  unfolding fills_def
proof (intro conjI allI impI)
  fix c h
  show "ptr (obj (finalize_StatusDir c h) c) FStatusDir \<noteq> None"
    by (simp add: finalize_StatusDir_def finalize_unfold stringFromEnv_alloc)
  show "sgrows (strings h) (strings (finalize_StatusDir c h))"
    by (simp add: finalize_StatusDir_def finalize_unfold stringFromEnv_alloc sgrows_refl sgrows_alloc)
next
  fix c h q f p
  assume "ptr (obj h q) f = Some p"
  then show "ptr (obj (finalize_StatusDir c h) q) f = Some p"
    by (cases f) (auto simp: finalize_StatusDir_def finalize_unfold stringFromEnv_alloc)
qed

lemma fills_Syslog: "fills FSyslog (finalize_Syslog reg)"
  unfolding fills_def
proof (intro conjI allI impI)
  fix c h
  show "ptr (obj (finalize_Syslog reg c h) c) FSyslog \<noteq> None"
    by (simp add: finalize_Syslog_def finalize_unfold stringFromEnv_alloc)
  show "sgrows (strings h) (strings (finalize_Syslog reg c h))"
    by (simp add: finalize_Syslog_def finalize_unfold stringFromEnv_alloc sgrows_refl sgrows_alloc)
next
  fix c h q f p
  assume "ptr (obj h q) f = Some p"
  then show "ptr (obj (finalize_Syslog reg c h) q) f = Some p"
    by (cases f) (auto simp: finalize_Syslog_def finalize_unfold stringFromEnv_alloc)
qed

lemma fills_Wait: "fills FWait (finalize_Wait reg)"
  unfolding fills_def
proof (intro conjI allI impI)
  fix c h
  show "ptr (obj (finalize_Wait reg c h) c) FWait \<noteq> None"
    by (simp add: finalize_Wait_def finalize_unfold stringFromEnv_alloc)
  show "sgrows (strings h) (strings (finalize_Wait reg c h))"
    by (simp add: finalize_Wait_def finalize_unfold stringFromEnv_alloc sgrows_refl sgrows_alloc)
next
  fix c h q f p
  assume "ptr (obj h q) f = Some p"
  then show "ptr (obj (finalize_Wait reg c h) q) f = Some p"
    by (cases f) (auto simp: finalize_Wait_def finalize_unfold stringFromEnv_alloc)
qed

lemma fold_fills:
  assumes "\<forall>(g, B) \<in> set bs. fills g B"
  shows "(\<forall>f \<in> fst ` set bs. ptr (obj (fold (\<lambda>(g, B). B c) bs h) c) f \<noteq> None)
     \<and> (\<forall>q f p. ptr (obj h q) f = Some p \<longrightarrow>
           ptr (obj (fold (\<lambda>(g, B). B c) bs h) q) f = Some p)
     \<and> sgrows (strings h) (strings (fold (\<lambda>(g, B). B c) bs h))"
  using assms
proof (induction bs arbitrary: h)
  case Nil
  show ?case by (simp add: sgrows_refl)
next
  case (Cons b bs)
  obtain g B where b: "b = (g, B)" by (cases b)
  let ?h1 = "B c h"
  let ?h' = "fold (\<lambda>(g, B). B c) bs ?h1"
  from Cons.prems b have f: "fills g B" and rest: "\<forall>(g, B) \<in> set bs. fills g B"
    by auto
  from f have own: "ptr (obj ?h1 c) g \<noteq> None"
    and keep: "\<And>q f p. ptr (obj h q) f = Some p \<Longrightarrow> ptr (obj ?h1 q) f = Some p"
    and gr: "sgrows (strings h) (strings ?h1)"
    unfolding fills_def by blast+
  note IH = Cons.IH [OF rest, of ?h1]
  from IH have keep': "\<And>q f p. ptr (obj ?h1 q) f = Some p \<Longrightarrow> ptr (obj ?h' q) f = Some p"
    by blast
  have "ptr (obj ?h' c) g \<noteq> None"
    using own keep' [of c g] by auto
  with IH have "\<forall>f \<in> fst ` set (b # bs). ptr (obj ?h' c) f \<noteq> None"
    by (simp add: b)
  moreover have "\<forall>q f p. ptr (obj h q) f = Some p \<longrightarrow> ptr (obj ?h' q) f = Some p"
    using keep keep' by blast
  moreover have "sgrows (strings h) (strings ?h')"
    using IH gr by (blast intro: sgrows_trans)
  ultimately show ?case by (simp add: b)
qed

lemma Finalize_blocks:
  "Finalize reg Getenv (Some pc) h =
     fold (\<lambda>(g, B). B pc) [(FConsul, finalize_Consul reg), (FExcludes, finalize_Excludes reg), (FKillSignal, finalize_KillSignal), (FLogLevel, finalize_LogLevel Getenv), (FMaxStale, finalize_MaxStale), (FPrefixes, finalize_Prefixes reg), (FPidFile, finalize_PidFile), (FReloadSignal, finalize_ReloadSignal), (FStatusDir, finalize_StatusDir), (FSyslog, finalize_Syslog reg), (FWait, finalize_Wait reg)] h"
  by (simp add: Finalize_def)

lemma fills_blocks:
  "\<forall>(g, B) \<in> set [(FConsul, finalize_Consul reg), (FExcludes, finalize_Excludes reg), (FKillSignal, finalize_KillSignal), (FLogLevel, finalize_LogLevel Getenv), (FMaxStale, finalize_MaxStale), (FPrefixes, finalize_Prefixes reg), (FPidFile, finalize_PidFile), (FReloadSignal, finalize_ReloadSignal), (FStatusDir, finalize_StatusDir), (FSyslog, finalize_Syslog reg), (FWait, finalize_Wait reg)]. fills g B"
  by (simp add: fills_Consul fills_Excludes fills_KillSignal fills_LogLevel fills_MaxStale fills_Prefixes fills_PidFile fills_ReloadSignal fills_StatusDir fills_Syslog fills_Wait)

lemma Finalize_fills:
  "f \<noteq> FDestinationConsul \<Longrightarrow> ptr (obj (Finalize reg Getenv (Some pc) h) pc) f \<noteq> None"
  unfolding Finalize_blocks
  using fold_fills [OF fills_blocks, of reg Getenv pc h]
  by (cases f) simp_all

lemma Finalize_keeps:
  "ptr (obj h q) f = Some p \<Longrightarrow> ptr (obj (Finalize reg Getenv (Some pc) h) q) f = Some p"
  unfolding Finalize_blocks
  using fold_fills [OF fills_blocks, of reg Getenv pc h] by blast

lemma Finalize_strings:
  "sgrows (strings h) (strings (Finalize reg Getenv (Some pc) h))"
  unfolding Finalize_blocks
  using fold_fills [OF fills_blocks, of reg Getenv pc h] by blast

lemma before_LogLevel:
  "LogLevel (obj (finalize_Consul reg c h) q) = LogLevel (obj h q)"
  "LogLevel (obj (finalize_Excludes reg c h) q) = LogLevel (obj h q)"
  "LogLevel (obj (finalize_KillSignal c h) q) = LogLevel (obj h q)"
  "strings (finalize_Consul reg c h) = strings h"
  "strings (finalize_Excludes reg c h) = strings h"
  "strings (finalize_KillSignal c h) = strings h"
  by (simp_all add: finalize_Consul_def finalize_Excludes_def finalize_KillSignal_def
        finalize_unfold)

lemma finalize_LogLevel_set:
  "LogLevel (obj h c) \<noteq> None \<Longrightarrow> finalize_LogLevel Getenv c h = h"
  by (cases "LogLevel (obj h c)") (simp_all add: finalize_LogLevel_def)

lemma finalize_LogLevel_unset:
  "LogLevel (obj h c) = None \<Longrightarrow>
     LogLevel (obj (finalize_LogLevel Getenv c h) c) = Some (next_addr (strings h))
     \<and> next_addr (strings h) < next_addr (strings (finalize_LogLevel Getenv c h))
     \<and> cell (strings (finalize_LogLevel Getenv c h)) (next_addr (strings h))
         = (if Getenv ''CR_LOG'' \<noteq> [] then TrimSpace (Getenv ''CR_LOG'')
            else if Getenv ''CONSUL_REPLICATE_LOG'' \<noteq> []
                 then TrimSpace (Getenv ''CONSUL_REPLICATE_LOG'')
                 else ''WARN'')"
  by (simp add: finalize_LogLevel_def finalize_unfold DefaultLogLevel_def)

lemma Finalize_after_LogLevel:
  "Finalize reg Getenv (Some pc) h =
     fold (\<lambda>(g, B). B pc) [(FMaxStale, finalize_MaxStale), (FPrefixes, finalize_Prefixes reg), (FPidFile, finalize_PidFile), (FReloadSignal, finalize_ReloadSignal), (FStatusDir, finalize_StatusDir), (FSyslog, finalize_Syslog reg), (FWait, finalize_Wait reg)]
       (finalize_LogLevel Getenv pc
          (finalize_KillSignal pc (finalize_Excludes reg pc (finalize_Consul reg pc h))))"
  by (simp add: Finalize_def)

lemma fills_rest:
  "\<forall>(g, B) \<in> set [(FMaxStale, finalize_MaxStale), (FPrefixes, finalize_Prefixes reg), (FPidFile, finalize_PidFile), (FReloadSignal, finalize_ReloadSignal), (FStatusDir, finalize_StatusDir), (FSyslog, finalize_Syslog reg), (FWait, finalize_Wait reg)]. fills g B"
  by (simp add: fills_Consul fills_Excludes fills_KillSignal fills_LogLevel fills_MaxStale fills_Prefixes fills_PidFile fills_ReloadSignal fills_StatusDir fills_Syslog fills_Wait)

lemma TrimSpace_DEBUG: "TrimSpace ''DEBUG'' = ''DEBUG''"
  by (simp add: TrimSpace_def white_space_def)

section \<open>Finalize: the claims\<close>

lemma TrimSpace_padded: "TrimSpace ''  DEBUG '' = ''DEBUG''"
  by (simp add: TrimSpace_def white_space_def)

lemma Finalize_LogLevel_unset:
  assumes unset: "LogLevel (obj h pc) = None"
  shows "view (Finalize reg Getenv (Some pc) h) (obj (Finalize reg Getenv (Some pc) h) pc)
           FLogLevel
         = OString (if Getenv ''CR_LOG'' \<noteq> [] then TrimSpace (Getenv ''CR_LOG'')
                    else if Getenv ''CONSUL_REPLICATE_LOG'' \<noteq> []
                         then TrimSpace (Getenv ''CONSUL_REPLICATE_LOG'')
                         else ''WARN'')"
proof -
  let ?h3 = "finalize_KillSignal pc (finalize_Excludes reg pc (finalize_Consul reg pc h))"
  let ?h4 = "finalize_LogLevel Getenv pc ?h3"
  let ?p = "next_addr (strings ?h3)"
  let ?v = "if Getenv ''CR_LOG'' \<noteq> [] then TrimSpace (Getenv ''CR_LOG'')
            else if Getenv ''CONSUL_REPLICATE_LOG'' \<noteq> []
                 then TrimSpace (Getenv ''CONSUL_REPLICATE_LOG'')
                 else ''WARN''"
  let ?h' = "Finalize reg Getenv (Some pc) h"
  from unset have "LogLevel (obj ?h3 pc) = None"
    by (simp add: before_LogLevel)
  from finalize_LogLevel_unset [OF this, of Getenv]
  have p4: "ptr (obj ?h4 pc) FLogLevel = Some ?p"
    and lt: "?p < next_addr (strings ?h4)"
    and v4: "cell (strings ?h4) ?p = ?v"
    by simp_all
  note F = fold_fills [OF fills_rest, of reg pc ?h4, folded Finalize_after_LogLevel]
  from F p4 have "ptr (obj ?h' pc) FLogLevel = Some ?p" by blast
  moreover from F have "sgrows (strings ?h4) (strings ?h')" by blast
  with lt v4 have "cell (strings ?h') ?p = ?v" by (simp add: sgrows_def)
  ultimately show "view ?h' (obj ?h' pc) FLogLevel = OString ?v"
    by (simp add: view_def)
qed

text \<open>
  Claim C9. When \<^verbatim>\<open>LogLevel\<close> is \<^verbatim>\<open>nil\<close> at \<^verbatim>\<open>Finalize\<close>, the log level the
  finalized Config reads is the trimmed value of \<^verbatim>\<open>CR_LOG\<close> when that is not empty,
  else the trimmed value of \<^verbatim>\<open>CONSUL_REPLICATE_LOG\<close> when that is not empty, else
  \<^verbatim>\<open>WARN\<close>. So it is \<^verbatim>\<open>DEBUG\<close> when \<^verbatim>\<open>CR_LOG\<close> is \<^verbatim>\<open>DEBUG\<close>, and when
  \<^verbatim>\<open>CR_LOG\<close> is empty and \<^verbatim>\<open>CONSUL_REPLICATE_LOG\<close> is \<^verbatim>\<open>DEBUG\<close>, and it is
  \<^verbatim>\<open>WARN\<close> when both are empty. When \<^verbatim>\<open>LogLevel\<close> is set, \<^verbatim>\<open>Finalize\<close>
  keeps the pointer and its whole result is the same under every environment; the value
  read is the one that was set.
\<close>

theorem Finalize_LogLevel_env:
  "(LogLevel (obj h pc) = None \<longrightarrow>
      view (Finalize reg Getenv (Some pc) h) (obj (Finalize reg Getenv (Some pc) h) pc) FLogLevel
        = OString (if Getenv ''CR_LOG'' \<noteq> [] then TrimSpace (Getenv ''CR_LOG'')
                   else if Getenv ''CONSUL_REPLICATE_LOG'' \<noteq> []
                        then TrimSpace (Getenv ''CONSUL_REPLICATE_LOG'')
                        else ''WARN''))
   \<and> (LogLevel (obj h pc) = None \<and> Getenv ''CR_LOG'' = ''DEBUG'' \<longrightarrow>
        view (Finalize reg Getenv (Some pc) h) (obj (Finalize reg Getenv (Some pc) h) pc)
          FLogLevel = OString ''DEBUG'')
   \<and> (LogLevel (obj h pc) = None \<and> Getenv ''CR_LOG'' = []
        \<and> Getenv ''CONSUL_REPLICATE_LOG'' = ''DEBUG'' \<longrightarrow>
        view (Finalize reg Getenv (Some pc) h) (obj (Finalize reg Getenv (Some pc) h) pc)
          FLogLevel = OString ''DEBUG'')
   \<and> (LogLevel (obj h pc) = None \<and> Getenv ''CR_LOG'' = []
        \<and> Getenv ''CONSUL_REPLICATE_LOG'' = [] \<longrightarrow>
        view (Finalize reg Getenv (Some pc) h) (obj (Finalize reg Getenv (Some pc) h) pc)
          FLogLevel = OString DefaultLogLevel \<and> DefaultLogLevel = ''WARN'')
   \<and> (LogLevel (obj h pc) \<noteq> None \<longrightarrow>
        LogLevel (obj (Finalize reg Getenv (Some pc) h) pc) = LogLevel (obj h pc)
        \<and> Finalize reg Getenv (Some pc) h = Finalize reg Getenv' (Some pc) h)
   \<and> (\<forall>p. LogLevel (obj h pc) = Some p \<and> p < next_addr (strings h) \<longrightarrow>
          view (Finalize reg Getenv (Some pc) h) (obj (Finalize reg Getenv (Some pc) h) pc)
            FLogLevel
            = view h (obj h pc) FLogLevel)"
proof (intro conjI impI allI)
  assume "LogLevel (obj h pc) = None"
  then show "view (Finalize reg Getenv (Some pc) h)
      (obj (Finalize reg Getenv (Some pc) h) pc) FLogLevel
        = OString (if Getenv ''CR_LOG'' \<noteq> [] then TrimSpace (Getenv ''CR_LOG'')
                   else if Getenv ''CONSUL_REPLICATE_LOG'' \<noteq> []
                        then TrimSpace (Getenv ''CONSUL_REPLICATE_LOG'')
                        else ''WARN'')"
    by (rule Finalize_LogLevel_unset)
next
  assume "LogLevel (obj h pc) = None \<and> Getenv ''CR_LOG'' = ''DEBUG''"
  then show "view (Finalize reg Getenv (Some pc) h)
      (obj (Finalize reg Getenv (Some pc) h) pc) FLogLevel = OString ''DEBUG''"
    by (simp add: Finalize_LogLevel_unset TrimSpace_DEBUG)
next
  assume "LogLevel (obj h pc) = None \<and> Getenv ''CR_LOG'' = []
        \<and> Getenv ''CONSUL_REPLICATE_LOG'' = ''DEBUG''"
  then show "view (Finalize reg Getenv (Some pc) h)
      (obj (Finalize reg Getenv (Some pc) h) pc) FLogLevel = OString ''DEBUG''"
    by (simp add: Finalize_LogLevel_unset TrimSpace_DEBUG)
next
  assume "LogLevel (obj h pc) = None \<and> Getenv ''CR_LOG'' = []
        \<and> Getenv ''CONSUL_REPLICATE_LOG'' = []"
  then show "view (Finalize reg Getenv (Some pc) h)
      (obj (Finalize reg Getenv (Some pc) h) pc) FLogLevel = OString DefaultLogLevel"
    by (simp add: Finalize_LogLevel_unset DefaultLogLevel_def)
next
  show "DefaultLogLevel = ''WARN''" by (simp add: DefaultLogLevel_def)
next
  assume set: "LogLevel (obj h pc) \<noteq> None"
  then obtain p where p: "ptr (obj h pc) FLogLevel = Some p" by auto
  from Finalize_keeps [OF p] p
  show "LogLevel (obj (Finalize reg Getenv (Some pc) h) pc) = LogLevel (obj h pc)"
    by simp
  from set show "Finalize reg Getenv (Some pc) h = Finalize reg Getenv' (Some pc) h"
    by (simp add: Finalize_def before_LogLevel finalize_LogLevel_set)
next
  fix p
  let ?h' = "Finalize reg Getenv (Some pc) h"
  assume "LogLevel (obj h pc) = Some p \<and> p < next_addr (strings h)"
  then have p: "ptr (obj h pc) FLogLevel = Some p" and lt: "p < next_addr (strings h)"
    by simp_all
  from Finalize_strings [of h reg Getenv pc] lt
  have "cell (strings ?h') p = cell (strings h) p"
    by (simp add: sgrows_def)
  with Finalize_keeps [OF p, of reg Getenv pc] p
  show "view ?h' (obj ?h' pc) FLogLevel = view h (obj h pc) FLogLevel"
    by (simp add: view_def)
qed

lemma heap_of_obj: "obj (heap_of c) 0 = c"
  by (simp add: heap_of_def obj_def empty_heap_def alloc_def)

theorem Finalize_LogLevel_env_witness:
  "LogLevel (obj (heap_of Config_zero) 0) = None
   \<and> view (Finalize (\<lambda>_. Map.empty)
              (\<lambda>s. if s = ''CONSUL_REPLICATE_LOG'' then ''  DEBUG '' else []) (Some 0)
              (heap_of Config_zero))
        (obj (Finalize (\<lambda>_. Map.empty)
              (\<lambda>s. if s = ''CONSUL_REPLICATE_LOG'' then ''  DEBUG '' else []) (Some 0)
              (heap_of Config_zero)) 0) FLogLevel
      = OString ''DEBUG''
   \<and> LogLevel (obj one_config 0) = Some 0 \<and> 0 < next_addr (strings one_config)
   \<and> view (Finalize (\<lambda>_. Map.empty) (\<lambda>s. ''DEBUG'') (Some 0) one_config)
        (obj (Finalize (\<lambda>_. Map.empty) (\<lambda>s. ''DEBUG'') (Some 0) one_config) 0) FLogLevel
      = OString ''INFO''"
proof -
  let ?env = "\<lambda>s. if s = ''CONSUL_REPLICATE_LOG'' then ''  DEBUG '' else []"
  let ?h1 = "Finalize (\<lambda>_. Map.empty) ?env (Some 0) (heap_of Config_zero)"
  let ?h2 = "Finalize (\<lambda>_. Map.empty) (\<lambda>s. ''DEBUG'') (Some 0) one_config"
  have a: "LogLevel (obj (heap_of Config_zero) 0) = None"
    by (simp add: heap_of_obj Config_zero_def)
  with Finalize_LogLevel_env [of "heap_of Config_zero" 0 "\<lambda>_. Map.empty" ?env]
  have 1: "view ?h1 (obj ?h1 0) FLogLevel = OString ''DEBUG''"
    by (simp add: TrimSpace_padded)
  have b: "LogLevel (obj one_config 0) = Some 0 \<and> 0 < next_addr (strings one_config)"
    and c: "view one_config (obj one_config 0) FLogLevel = OString ''INFO''"
    by (simp_all add: one_config_def eval_heap view_def)
  from Finalize_LogLevel_env [of one_config 0 "\<lambda>_. Map.empty" "\<lambda>s. ''DEBUG''"] b
  have "view ?h2 (obj ?h2 0) FLogLevel = view one_config (obj one_config 0) FLogLevel"
    by blast
  with c have 2: "view ?h2 (obj ?h2 0) FLogLevel = OString ''INFO''" by simp
  from a 1 b 2 show ?thesis by simp
qed

text \<open>
  Claim C1. The claim is that after \<^verbatim>\<open>Finalize\<close> every field is present,
  \<^verbatim>\<open>DestinationConsul\<close> included. On the zero value the code leaves
  \<^verbatim>\<open>DestinationConsul\<close> \<^verbatim>\<open>nil\<close>, under every registry and environment; the other
  eleven fields are present.
\<close>

theorem Finalize_zero_value:
  "DestinationConsul (obj (Finalize reg Getenv (Some 0) (heap_of Config_zero)) 0) = None
   \<and> list_all (\<lambda>f. ptr (obj (Finalize reg Getenv (Some 0) (heap_of Config_zero)) 0) f \<noteq> None)
       [FConsul, FExcludes, FKillSignal, FLogLevel, FMaxStale, FPidFile, FPrefixes,
        FReloadSignal, FStatusDir, FSyslog, FWait]"
proof -
  note F = Finalize_fills [of _ reg Getenv 0 "heap_of Config_zero"]
  from F [of FConsul] F [of FExcludes] F [of FKillSignal] F [of FLogLevel] F [of FMaxStale]
    F [of FPidFile] F [of FPrefixes] F [of FReloadSignal] F [of FStatusDir] F [of FSyslog]
    F [of FWait]
  show ?thesis
    by (simp add: Finalize_DestinationConsul heap_of_obj Config_zero_def)
qed

text \<open>
  \<^verbatim>\<open>TestConfig(nil)\<close> starts from \<^verbatim>\<open>DefaultConfig\<close>, which sets
  \<^verbatim>\<open>DestinationConsul\<close>; the \<^verbatim>\<open>Merge\<close> drops it and \<^verbatim>\<open>Finalize\<close> does not
  restore it.
\<close>

lemma TestConfig_DestinationConsul:
  "case TestConfig reg Getenv None h of
     Inl e \<Rightarrow> False
   | Inr (d, h') \<Rightarrow>
       (case d of None \<Rightarrow> False | Some p \<Rightarrow> DestinationConsul (obj h' p) = None)"
proof -
  obtain d h1 where dc: "DefaultConfig h = (d, h1)" by (cases "DefaultConfig h")
  from Copy_Some [of d h1] obtain h2 where c: "Copy (Some d) h1 = Inr (next_addr (configs h1), h2)"
    and co: "copy_of d h1 h2"
    by blast
  from co have "DestinationConsul (obj h2 (next_addr (configs h1))) = None"
    by (simp add: copy_of_def)
  then show ?thesis
    by (simp add: TestConfig_def dc Merge_def c Finalize_DestinationConsul)
qed

end
